theory Spec2Isabelle
  imports Complex_Main "HOL-Library.Monad_Syntax"
begin

section \<open>The Eulerian 2D fluid solver (class EulerianFluid2D)\<close>

text \<open>
  The solver keeps seven \<open>Float32Array\<close> buffers of length \<open>(N+2)\<^sup>2\<close> and a parameter
  record. The embedding below follows the class member by member.

  \<^item> Numbers are idealised: a cell holds a \<open>real\<close>; rounding to single precision, NaN and
    the infinities are outside the model, and so is a division by zero (an infinity or NaN
    in the source, \<open>0\<close> in HOL), which only the relaxation coefficient \<open>c = 1 + 4 * a\<close>
    of a negative diffusion rate can bring about. Integer-valued numbers (the resolution,
    loop counters, cell coordinates, array indices) are \<open>int\<close>.
  \<^item> The methods take their buffers by reference and some calls pass the same buffer in two
    roles, so a buffer argument is a name of type \<open>buf\<close> and the state is passed explicitly.
  \<^item> A typed array read outside its range gives \<open>undefined\<close> in the source (a NaN once it
    enters arithmetic) and a write outside its range is dropped. Neither has a value in the
    real-valued model, so every array access is checked: an access outside the range makes
    the whole operation \<open>None\<close>. An operation that returns \<open>Some\<close> has therefore computed
    only indices inside its arrays.
\<close>

subsection \<open>Data\<close>

record SimulationParameters =
  resolution :: int
  viscosity :: real
  diffusion :: real
  dissipation :: real
  curlStrength :: real
  pressureIterations :: int

record DyeField =
  size_d :: int
  data_d :: "real list"

datatype buf =
  VelocityX | VelocityY | VelocityXPrev | VelocityYPrev | Density | DensityPrev | Curl

record fluid =
  config :: SimulationParameters
  size_f :: int
  gridSize :: int
  velocityX :: "real list"
  velocityY :: "real list"
  velocityXPrev :: "real list"
  velocityYPrev :: "real list"
  density :: "real list"
  densityPrev :: "real list"
  curl :: "real list"

text \<open>Dereferencing a buffer name, and replacing the contents of a buffer.\<close>

fun get :: "buf \<Rightarrow> fluid \<Rightarrow> real list" where
  "get VelocityX s = velocityX s"
| "get VelocityY s = velocityY s"
| "get VelocityXPrev s = velocityXPrev s"
| "get VelocityYPrev s = velocityYPrev s"
| "get Density s = density s"
| "get DensityPrev s = densityPrev s"
| "get Curl s = curl s"

fun put :: "buf \<Rightarrow> real list \<Rightarrow> fluid \<Rightarrow> fluid" where
  "put VelocityX a s = s\<lparr>velocityX := a\<rparr>"
| "put VelocityY a s = s\<lparr>velocityY := a\<rparr>"
| "put VelocityXPrev a s = s\<lparr>velocityXPrev := a\<rparr>"
| "put VelocityYPrev a s = s\<lparr>velocityYPrev := a\<rparr>"
| "put Density a s = s\<lparr>density := a\<rparr>"
| "put DensityPrev a s = s\<lparr>densityPrev := a\<rparr>"
| "put Curl a s = s\<lparr>curl := a\<rparr>"

subsection \<open>Typed arrays\<close>

text \<open>\<open>new Float32Array(n)\<close>: \<open>n\<close> zeros. Every \<open>n\<close> of the class is a product \<open>m * m\<close>,
  so the \<open>RangeError\<close> of a negative length cannot arise.\<close>

definition newFloat32Array :: "int \<Rightarrow> real list" where
  "newFloat32Array n = replicate (nat n) 0"

text \<open>\<open>a.fill(0)\<close>.\<close>

definition fill0 :: "real list \<Rightarrow> real list" where
  "fill0 a = replicate (length a) 0"

definition rd_arr :: "real list \<Rightarrow> int \<Rightarrow> real option" where
  "rd_arr a k = (if 0 \<le> k \<and> k < int (length a) then Some (a ! nat k) else None)"

definition wr_arr :: "real list \<Rightarrow> int \<Rightarrow> real \<Rightarrow> real list option" where
  "wr_arr a k v = (if 0 \<le> k \<and> k < int (length a) then Some (a[nat k := v]) else None)"

definition rd :: "buf \<Rightarrow> int \<Rightarrow> fluid \<Rightarrow> real option" where
  "rd x k s = rd_arr (get x s) k"

definition wr :: "buf \<Rightarrow> int \<Rightarrow> real \<Rightarrow> fluid \<Rightarrow> fluid option" where
  "wr x k v s = map_option (\<lambda>a. put x a s) (wr_arr (get x s) k v)"

text \<open>A \<open>for\<close> loop over the given counter values, threading the mutated state.\<close>

fun forM :: "'i list \<Rightarrow> ('i \<Rightarrow> 's \<Rightarrow> 's option) \<Rightarrow> 's \<Rightarrow> 's option" where
  "forM [] f s = Some s"
| "forM (i # is) f s = Option.bind (f i s) (forM is f)"

subsection \<open>Indexing, construction and reconfiguration\<close>

definition IX :: "fluid \<Rightarrow> int \<Rightarrow> int \<Rightarrow> int" where
  "IX s x y = x + (size_f s + 2) * y"

definition constructor :: "SimulationParameters \<Rightarrow> fluid" where
  "constructor cfg =
     (let n = resolution cfg; g = (n + 2) * (n + 2) in
      \<lparr>config = cfg, size_f = n, gridSize = g,
       velocityX = newFloat32Array g, velocityY = newFloat32Array g,
       velocityXPrev = newFloat32Array g, velocityYPrev = newFloat32Array g,
       density = newFloat32Array g, densityPrev = newFloat32Array g,
       curl = newFloat32Array g\<rparr>)"

definition resize :: "int \<Rightarrow> fluid \<Rightarrow> fluid" where
  "resize res s =
     (let g = (res + 2) * (res + 2) in
      s\<lparr>size_f := res, gridSize := g,
        velocityX := newFloat32Array g, velocityY := newFloat32Array g,
        velocityXPrev := newFloat32Array g, velocityYPrev := newFloat32Array g,
        density := newFloat32Array g, densityPrev := newFloat32Array g,
        curl := newFloat32Array g\<rparr>)"

definition updateConfig :: "SimulationParameters \<Rightarrow> fluid \<Rightarrow> fluid" where
  "updateConfig cfg s =
     (if resolution cfg \<noteq> resolution (config s)
      then resize (resolution cfg) (s\<lparr>config := cfg\<rparr>)
      else s\<lparr>config := cfg\<rparr>)"

definition clearDye :: "fluid \<Rightarrow> fluid" where
  "clearDye s = s\<lparr>density := fill0 (density s), densityPrev := fill0 (densityPrev s)\<rparr>"

definition clearVelocity :: "fluid \<Rightarrow> fluid" where
  "clearVelocity s =
     s\<lparr>velocityX := fill0 (velocityX s), velocityY := fill0 (velocityY s),
       velocityXPrev := fill0 (velocityXPrev s), velocityYPrev := fill0 (velocityYPrev s)\<rparr>"

definition reset :: "fluid \<Rightarrow> fluid" where
  "reset s = (let s = clearDye (clearVelocity s) in s\<lparr>curl := fill0 (curl s)\<rparr>)"

subsection \<open>Boundary conditions\<close>

definition setBounds_edges :: "int \<Rightarrow> buf \<Rightarrow> int \<Rightarrow> fluid \<Rightarrow> fluid option" where
  "setBounds_edges b x i s =
     (let N = size_f s in do {
        v \<leftarrow> rd x (IX s 1 i) s;
        s \<leftarrow> wr x (IX s 0 i) (if b = 1 then - v else v) s;
        v \<leftarrow> rd x (IX s N i) s;
        s \<leftarrow> wr x (IX s (N + 1) i) (if b = 1 then - v else v) s;
        v \<leftarrow> rd x (IX s i 1) s;
        s \<leftarrow> wr x (IX s i 0) (if b = 2 then - v else v) s;
        v \<leftarrow> rd x (IX s i N) s;
        wr x (IX s i (N + 1)) (if b = 2 then - v else v) s
      })"

definition setBounds_corners :: "buf \<Rightarrow> fluid \<Rightarrow> fluid option" where
  "setBounds_corners x s =
     (let N = size_f s in do {
        p \<leftarrow> rd x (IX s 1 0) s;
        q \<leftarrow> rd x (IX s 0 1) s;
        s \<leftarrow> wr x (IX s 0 0) (0.5 * (p + q)) s;
        p \<leftarrow> rd x (IX s 1 (N + 1)) s;
        q \<leftarrow> rd x (IX s 0 N) s;
        s \<leftarrow> wr x (IX s 0 (N + 1)) (0.5 * (p + q)) s;
        p \<leftarrow> rd x (IX s N 0) s;
        q \<leftarrow> rd x (IX s (N + 1) 1) s;
        s \<leftarrow> wr x (IX s (N + 1) 0) (0.5 * (p + q)) s;
        p \<leftarrow> rd x (IX s N (N + 1)) s;
        q \<leftarrow> rd x (IX s (N + 1) N) s;
        wr x (IX s (N + 1) (N + 1)) (0.5 * (p + q)) s
      })"

definition setBounds :: "int \<Rightarrow> buf \<Rightarrow> fluid \<Rightarrow> fluid option" where
  "setBounds b x s =
     Option.bind (forM [1..size_f s] (setBounds_edges b x) s) (setBounds_corners x)"

subsection \<open>Relaxation, diffusion, advection, projection\<close>

definition linearSolve_cell ::
  "buf \<Rightarrow> buf \<Rightarrow> real \<Rightarrow> real \<Rightarrow> int \<Rightarrow> int \<Rightarrow> fluid \<Rightarrow> fluid option" where
  "linearSolve_cell x x0 a c j i s = do {
     v0 \<leftarrow> rd x0 (IX s i j) s;
     w \<leftarrow> rd x (IX s (i - 1) j) s;
     e \<leftarrow> rd x (IX s (i + 1) j) s;
     d \<leftarrow> rd x (IX s i (j - 1)) s;
     u \<leftarrow> rd x (IX s i (j + 1)) s;
     wr x (IX s i j) ((v0 + a * (w + e + d + u)) / c) s
   }"

definition linearSolve_sweep ::
  "int \<Rightarrow> buf \<Rightarrow> buf \<Rightarrow> real \<Rightarrow> real \<Rightarrow> fluid \<Rightarrow> fluid option" where
  "linearSolve_sweep b x x0 a c s =
     Option.bind
       (forM [1..size_f s] (\<lambda>j. forM [1..size_f s] (linearSolve_cell x x0 a c j)) s)
       (setBounds b x)"

definition linearSolve ::
  "int \<Rightarrow> buf \<Rightarrow> buf \<Rightarrow> real \<Rightarrow> real \<Rightarrow> fluid \<Rightarrow> fluid option" where
  "linearSolve b x x0 a c s =
     forM [0..pressureIterations (config s) - 1] (\<lambda>k. linearSolve_sweep b x x0 a c) s"

definition diffuse :: "int \<Rightarrow> buf \<Rightarrow> buf \<Rightarrow> real \<Rightarrow> real \<Rightarrow> fluid \<Rightarrow> fluid option" where
  "diffuse b x x0 diff dt s =
     (let N = size_f s;
          a = dt * diff * real_of_int N * real_of_int N
      in linearSolve b x x0 a (1 + 4 * a) s)"

definition advect_cell ::
  "buf \<Rightarrow> buf \<Rightarrow> buf \<Rightarrow> buf \<Rightarrow> real \<Rightarrow> int \<Rightarrow> int \<Rightarrow> fluid \<Rightarrow> fluid option" where
  "advect_cell d d0 velocX velocY dt0 j i s =
     (let N = size_f s in do {
        vx \<leftarrow> rd velocX (IX s i j) s;
        vy \<leftarrow> rd velocY (IX s i j) s;
        let x = real_of_int i - dt0 * vx;
        let y = real_of_int j - dt0 * vy;
        let x = (if x < 0.5 then 0.5 else x);
        let x = (if x > real_of_int N + 0.5 then real_of_int N + 0.5 else x);
        let i0 = \<lfloor>x\<rfloor>;
        let i1 = i0 + 1;
        let y = (if y < 0.5 then 0.5 else y);
        let y = (if y > real_of_int N + 0.5 then real_of_int N + 0.5 else y);
        let j0 = \<lfloor>y\<rfloor>;
        let j1 = j0 + 1;
        let s1 = x - real_of_int i0;
        let s0 = 1 - s1;
        let t1 = y - real_of_int j0;
        let t0 = 1 - t1;
        d00 \<leftarrow> rd d0 (IX s i0 j0) s;
        d01 \<leftarrow> rd d0 (IX s i0 j1) s;
        d10 \<leftarrow> rd d0 (IX s i1 j0) s;
        d11 \<leftarrow> rd d0 (IX s i1 j1) s;
        wr d (IX s i j) (s0 * (t0 * d00 + t1 * d01) + s1 * (t0 * d10 + t1 * d11)) s
      })"

definition advect ::
  "int \<Rightarrow> buf \<Rightarrow> buf \<Rightarrow> buf \<Rightarrow> buf \<Rightarrow> real \<Rightarrow> fluid \<Rightarrow> fluid option" where
  "advect b d d0 velocX velocY dt s =
     (let N = size_f s;
          dt0 = dt * real_of_int N
      in Option.bind
           (forM [1..N] (\<lambda>j. forM [1..N] (advect_cell d d0 velocX velocY dt0 j)) s)
           (setBounds b d))"

definition project_div :: "buf \<Rightarrow> buf \<Rightarrow> buf \<Rightarrow> buf \<Rightarrow> int \<Rightarrow> int \<Rightarrow> fluid \<Rightarrow> fluid option" where
  "project_div velocX velocY p dv j i s =
     (let N = size_f s in do {
        e \<leftarrow> rd velocX (IX s (i + 1) j) s;
        w \<leftarrow> rd velocX (IX s (i - 1) j) s;
        u \<leftarrow> rd velocY (IX s i (j + 1)) s;
        d \<leftarrow> rd velocY (IX s i (j - 1)) s;
        s \<leftarrow> wr dv (IX s i j) (- 0.5 * (e - w + u - d) / real_of_int N) s;
        wr p (IX s i j) 0 s
      })"

definition project_grad :: "buf \<Rightarrow> buf \<Rightarrow> buf \<Rightarrow> int \<Rightarrow> int \<Rightarrow> fluid \<Rightarrow> fluid option" where
  "project_grad velocX velocY p j i s =
     (let N = size_f s in do {
        vx \<leftarrow> rd velocX (IX s i j) s;
        e \<leftarrow> rd p (IX s (i + 1) j) s;
        w \<leftarrow> rd p (IX s (i - 1) j) s;
        s \<leftarrow> wr velocX (IX s i j) (vx - 0.5 * real_of_int N * (e - w)) s;
        vy \<leftarrow> rd velocY (IX s i j) s;
        u \<leftarrow> rd p (IX s i (j + 1)) s;
        d \<leftarrow> rd p (IX s i (j - 1)) s;
        wr velocY (IX s i j) (vy - 0.5 * real_of_int N * (u - d)) s
      })"

definition project :: "buf \<Rightarrow> buf \<Rightarrow> buf \<Rightarrow> buf \<Rightarrow> fluid \<Rightarrow> fluid option" where
  "project velocX velocY p dv s =
     (let N = size_f s in do {
        s \<leftarrow> forM [1..N] (\<lambda>j. forM [1..N] (project_div velocX velocY p dv j)) s;
        s \<leftarrow> setBounds 0 dv s;
        s \<leftarrow> setBounds 0 p s;
        s \<leftarrow> linearSolve 0 p dv 1 4 s;
        s \<leftarrow> forM [1..N] (\<lambda>j. forM [1..N] (project_grad velocX velocY p j)) s;
        s \<leftarrow> setBounds 1 velocX s;
        setBounds 2 velocY s
      })"

subsection \<open>Vorticity confinement and dissipation\<close>

definition vorticity_curl :: "buf \<Rightarrow> buf \<Rightarrow> int \<Rightarrow> int \<Rightarrow> fluid \<Rightarrow> fluid option" where
  "vorticity_curl velocX velocY j i s = do {
     let index = IX s i j;
     ye \<leftarrow> rd velocY (IX s (i + 1) j) s;
     yw \<leftarrow> rd velocY (IX s (i - 1) j) s;
     let dw_dy = ye - yw;
     xu \<leftarrow> rd velocX (IX s i (j + 1)) s;
     xd \<leftarrow> rd velocX (IX s i (j - 1)) s;
     let du_dx = xu - xd;
     wr Curl index (0.5 * (dw_dy - du_dx)) s
   }"

definition vorticity_force ::
  "buf \<Rightarrow> buf \<Rightarrow> real \<Rightarrow> real \<Rightarrow> int \<Rightarrow> int \<Rightarrow> fluid \<Rightarrow> fluid option" where
  "vorticity_force velocX velocY epsilon dt j i s = do {
     let index = IX s i j;
     ce \<leftarrow> rd Curl (IX s (i + 1) j) s;
     cw \<leftarrow> rd Curl (IX s (i - 1) j) s;
     let Nx = (\<bar>ce\<bar> - \<bar>cw\<bar>) * 0.5;
     cu \<leftarrow> rd Curl (IX s i (j + 1)) s;
     cd \<leftarrow> rd Curl (IX s i (j - 1)) s;
     let Ny = (\<bar>cu\<bar> - \<bar>cd\<bar>) * 0.5;
     let len = sqrt (Nx * Nx + Ny * Ny) + 1 / 100000;
     let Nx = Nx / len;
     let Ny = Ny / len;
     vorticity \<leftarrow> rd Curl index s;
     let force = epsilon * vorticity;
     vx \<leftarrow> rd velocX index s;
     s \<leftarrow> wr velocX index (vx + Ny * - force * dt) s;
     vy \<leftarrow> rd velocY index s;
     wr velocY index (vy + Nx * force * dt) s
   }"

definition applyVorticityConfinement :: "buf \<Rightarrow> buf \<Rightarrow> real \<Rightarrow> fluid \<Rightarrow> fluid option" where
  "applyVorticityConfinement velocX velocY dt s =
     (let epsilon = curlStrength (config s) in
      if epsilon \<le> 0 then Some s
      else let N = size_f s in do {
        s \<leftarrow> forM [1..N] (\<lambda>j. forM [1..N] (vorticity_curl velocX velocY j)) s;
        s \<leftarrow> forM [1..N] (\<lambda>j. forM [1..N] (vorticity_force velocX velocY epsilon dt j)) s;
        s \<leftarrow> setBounds 1 velocX s;
        setBounds 2 velocY s
      })"

definition dissipate_cell :: "real \<Rightarrow> int \<Rightarrow> fluid \<Rightarrow> fluid option" where
  "dissipate_cell factor i s = do {
     v \<leftarrow> rd Density i s;
     wr Density i (v * factor) s
   }"

definition applyDissipation :: "fluid \<Rightarrow> fluid option" where
  "applyDissipation s =
     (let factor = dissipation (config s) in
      forM [0..int (length (density s)) - 1] (dissipate_cell factor) s)"

subsection \<open>One time step\<close>

definition step :: "real \<Rightarrow> fluid \<Rightarrow> fluid option" where
  "step dt s =
     (let visc = viscosity (config s);
          diff = diffusion (config s)
      in do {
        s \<leftarrow> diffuse 1 VelocityXPrev VelocityX visc dt s;
        s \<leftarrow> diffuse 2 VelocityYPrev VelocityY visc dt s;
        s \<leftarrow> project VelocityXPrev VelocityYPrev VelocityX VelocityY s;
        s \<leftarrow> advect 1 VelocityX VelocityXPrev VelocityXPrev VelocityYPrev dt s;
        s \<leftarrow> advect 2 VelocityY VelocityYPrev VelocityXPrev VelocityYPrev dt s;
        s \<leftarrow> applyVorticityConfinement VelocityX VelocityY dt s;
        s \<leftarrow> project VelocityX VelocityY VelocityXPrev VelocityYPrev s;
        s \<leftarrow> diffuse 0 DensityPrev Density diff dt s;
        s \<leftarrow> advect 0 Density DensityPrev VelocityX VelocityY dt s;
        applyDissipation s
      })"

subsection \<open>Impulses and read-out\<close>

definition addImpulse_cell ::
  "int \<Rightarrow> int \<Rightarrow> int \<Rightarrow> real \<Rightarrow> int \<Rightarrow> int \<Rightarrow> fluid \<Rightarrow> fluid option" where
  "addImpulse_cell r centerX centerY impulse j i s =
     (let N = size_f s;
          px = centerX + i;
          py = centerY + j
      in if px < 1 \<or> px > N \<or> py < 1 \<or> py > N then Some s
         else let weight = 1 - sqrt (real_of_int (i * i + j * j)) / real_of_int r in
           if weight \<le> 0 then Some s
           else do {
             let idx = IX s px py;
             v \<leftarrow> rd Density idx s;
             wr Density idx (v + impulse * weight * 0.01) s
           })"

definition addImpulse :: "real \<Rightarrow> real \<Rightarrow> real \<Rightarrow> real \<Rightarrow> real \<Rightarrow> fluid \<Rightarrow> fluid option" where
  "addImpulse x y radius strength audioFactor s =
     (let N = size_f s;
          r = max \<lfloor>radius * real_of_int N\<rfloor> 1;
          centerX = \<lfloor>x * real_of_int N\<rfloor>;
          centerY = \<lfloor>y * real_of_int N\<rfloor>;
          impulse = strength * (1 + audioFactor)
      in forM [- r..r] (\<lambda>j. forM [- r..r] (addImpulse_cell r centerX centerY impulse j)) s)"

definition addVelocityImpulse ::
  "real \<Rightarrow> real \<Rightarrow> real \<Rightarrow> real \<Rightarrow> real \<Rightarrow> fluid \<Rightarrow> fluid option" where
  "addVelocityImpulse x y vx vy forceStrength s =
     (let N = size_f s;
          px = \<lfloor>x * real_of_int N\<rfloor>;
          py = \<lfloor>y * real_of_int N\<rfloor>
      in if px < 1 \<or> px > N \<or> py < 1 \<or> py > N then Some s
         else do {
           let idx = IX s px py;
           u \<leftarrow> rd VelocityX idx s;
           s \<leftarrow> wr VelocityX idx (u + (vx / 1000) * forceStrength) s;
           v \<leftarrow> rd VelocityY idx s;
           wr VelocityY idx (v + (vy / 1000) * forceStrength) s
         })"

definition getDyeField_cell :: "fluid \<Rightarrow> int \<Rightarrow> int \<Rightarrow> real list \<Rightarrow> real list option" where
  "getDyeField_cell s y x dat =
     (let N = size_f s in do {
        let idx = IX s x y;
        v \<leftarrow> rd Density idx s;
        wr_arr dat ((y - 1) * N + (x - 1)) (min 1 (max 0 v))
      })"

definition getDyeField :: "fluid \<Rightarrow> DyeField option" where
  "getDyeField s =
     (let N = size_f s in do {
        dat \<leftarrow> forM [1..N] (\<lambda>y. forM [1..N] (getDyeField_cell s y)) (newFloat32Array (N * N));
        Some \<lparr>size_d = N, data_d = dat\<rparr>
      })"

section \<open>Definitions for the statements and the proofs\<close>

subsection \<open>Well-formed states and the grid view of a buffer\<close>

definition grid_ok :: "fluid \<Rightarrow> bool" where
  "grid_ok s = (let n = nat ((size_f s + 2) * (size_f s + 2)) in
     length (velocityX s) = n \<and> length (velocityY s) = n \<and>
     length (velocityXPrev s) = n \<and> length (velocityYPrev s) = n \<and>
     length (density s) = n \<and> length (densityPrev s) = n \<and> length (curl s) = n)"

definition inb :: "fluid \<Rightarrow> int \<Rightarrow> bool" where
  "inb s i = (0 \<le> i \<and> i \<le> size_f s + 1)"

definition cell :: "buf \<Rightarrow> int \<Rightarrow> int \<Rightarrow> fluid \<Rightarrow> real" where
  "cell x i j s = get x s ! nat (IX s i j)"

definition upd :: "buf \<Rightarrow> int \<Rightarrow> int \<Rightarrow> real \<Rightarrow> fluid \<Rightarrow> fluid" where
  "upd x i j v s = put x ((get x s)[nat (IX s i j) := v]) s"

definition clamp01 :: "real \<Rightarrow> real" where
  "clamp01 v = min 1 (max 0 v)"

text \<open>The output cell of linear index \<open>k\<close>.\<close>

definition dyeAt :: "fluid \<Rightarrow> nat \<Rightarrow> real" where
  "dyeAt s k = clamp01 (cell Density (int k mod size_f s + 1) (int k div size_f s + 1) s)"

definition dyeDone :: "fluid \<Rightarrow> int \<Rightarrow> real list \<Rightarrow> bool" where
  "dyeDone s n dat \<longleftrightarrow>
     length dat = nat (size_f s * size_f s) \<and> (\<forall>k. int k < n \<longrightarrow> dat ! k = dyeAt s k)"

subsection \<open>Example inputs\<close>

text \<open>Concrete inputs on which the theorems below are instantiated.\<close>

definition example_cfg :: SimulationParameters where
  "example_cfg = \<lparr>resolution = 2, viscosity = 0, diffusion = 0, dissipation = 1 / 2,
     curlStrength = 0, pressureIterations = 1\<rparr>"

definition dye_example :: fluid where
  "dye_example = (constructor example_cfg)
     \<lparr>density := [0, 0, 0, 0,  0, - 3, 1 / 2, 0,  0, 7, 1, 0,  0, 0, 0, 0]\<rparr>"

subsection \<open>Frames, the boundary rule and the progress of the loops\<close>

text \<open>What an operation may change: only the buffers named in \<open>X\<close>; the configuration,
  the size and the buffer lengths stay.\<close>

definition frame :: "buf set \<Rightarrow> fluid \<Rightarrow> fluid \<Rightarrow> bool" where
  "frame X s s' \<longleftrightarrow>
     grid_ok s' \<and> config s' = config s \<and> size_f s' = size_f s \<and> gridSize s' = gridSize s \<and>
     (\<forall>y. y \<notin> X \<longrightarrow> get y s' = get y s)"

definition interior :: "fluid \<Rightarrow> int \<Rightarrow> int \<Rightarrow> bool" where
  "interior s i j \<longleftrightarrow> 1 \<le> i \<and> i \<le> size_f s \<and> 1 \<le> j \<and> j \<le> size_f s"

text \<open>The boundary rule of tag \<open>b\<close> holds for buffer \<open>x\<close>.\<close>

definition mirrored :: "int \<Rightarrow> buf \<Rightarrow> fluid \<Rightarrow> bool" where
  "mirrored b x s \<longleftrightarrow> (let N = size_f s in
     (\<forall>j. 1 \<le> j \<and> j \<le> N \<longrightarrow>
        cell x 0 j s = (if b = 1 then - cell x 1 j s else cell x 1 j s) \<and>
        cell x (N + 1) j s = (if b = 1 then - cell x N j s else cell x N j s) \<and>
        cell x j 0 s = (if b = 2 then - cell x j 1 s else cell x j 1 s) \<and>
        cell x j (N + 1) s = (if b = 2 then - cell x j N s else cell x j N s)) \<and>
     cell x 0 0 s = 0.5 * (cell x 1 0 s + cell x 0 1 s) \<and>
     cell x 0 (N + 1) s = 0.5 * (cell x 1 (N + 1) s + cell x 0 N s) \<and>
     cell x (N + 1) 0 s = 0.5 * (cell x N 0 s + cell x (N + 1) 1 s) \<and>
     cell x (N + 1) (N + 1) s = 0.5 * (cell x N (N + 1) s + cell x (N + 1) N s))"

text \<open>The edge loop has passed the counter values \<open>1..n\<close>.\<close>

definition edges_done :: "int \<Rightarrow> buf \<Rightarrow> fluid \<Rightarrow> int \<Rightarrow> fluid \<Rightarrow> bool" where
  "edges_done b x s n t \<longleftrightarrow>
     frame {x} s t \<and>
     (\<forall>i j. interior s i j \<longrightarrow> cell x i j t = cell x i j s) \<and>
     (\<forall>j. 1 \<le> j \<and> j \<le> n \<longrightarrow>
        cell x 0 j t = (if b = 1 then - cell x 1 j s else cell x 1 j s) \<and>
        cell x (size_f s + 1) j t = (if b = 1 then - cell x (size_f s) j s else cell x (size_f s) j s) \<and>
        cell x j 0 t = (if b = 2 then - cell x j 1 s else cell x j 1 s) \<and>
        cell x j (size_f s + 1) t = (if b = 2 then - cell x j (size_f s) s else cell x j (size_f s) s))"

text \<open>The dissipation loop has passed the first \<open>n\<close> cells.\<close>

definition dissipated :: "fluid \<Rightarrow> nat \<Rightarrow> fluid" where
  "dissipated s n =
     s\<lparr>density := map (\<lambda>v. v * dissipation (config s)) (take n (density s)) @ drop n (density s)\<rparr>"

text \<open>The dye that a complete brush adds to the cell \<open>(px, py)\<close>, and the part of it added
  once the loops have passed the offsets up to \<open>(i0, j0)\<close> in their order.\<close>

definition impulse_added :: "int \<Rightarrow> int \<Rightarrow> int \<Rightarrow> real \<Rightarrow> int \<Rightarrow> int \<Rightarrow> real" where
  "impulse_added r cx cy impulse px py =
     (let i = px - cx; j = py - cy;
          weight = 1 - sqrt (real_of_int (i * i + j * j)) / real_of_int r
      in if - r \<le> i \<and> i \<le> r \<and> - r \<le> j \<and> j \<le> r \<and> 0 < weight
         then impulse * weight * 0.01 else 0)"

definition impulse_partial ::
  "int \<Rightarrow> int \<Rightarrow> int \<Rightarrow> real \<Rightarrow> int \<Rightarrow> int \<Rightarrow> int \<Rightarrow> int \<Rightarrow> real" where
  "impulse_partial r cx cy impulse j0 i0 px py =
     (if py - cy < j0 \<or> (py - cy = j0 \<and> px - cx \<le> i0)
      then impulse_added r cx cy impulse px py else 0)"

definition impulse_done ::
  "fluid \<Rightarrow> int \<Rightarrow> int \<Rightarrow> int \<Rightarrow> real \<Rightarrow> int \<Rightarrow> int \<Rightarrow> fluid \<Rightarrow> bool" where
  "impulse_done s r cx cy impulse j0 i0 t \<longleftrightarrow>
     frame {Density} s t \<and>
     (\<forall>px py. inb s px \<and> inb s py \<longrightarrow>
        cell Density px py t = cell Density px py s +
          (if interior s px py then impulse_partial r cx cy impulse j0 i0 px py else 0))"

text \<open>The relaxation pass over buffer \<open>x\<close> with source \<open>x0\<close>, started in state \<open>s\<close>, has
  passed the interior cells up to \<open>(i0, j0)\<close> in row-major order: a cell already passed
  holds the relaxed value, computed from the new values of its west and south neighbours
  and the old values of its east and north neighbours; every other cell is as in \<open>s\<close>.\<close>

definition passed :: "fluid \<Rightarrow> int \<Rightarrow> int \<Rightarrow> int \<Rightarrow> int \<Rightarrow> bool" where
  "passed s j0 i0 i j \<longleftrightarrow> interior s i j \<and> (j < j0 \<or> (j = j0 \<and> i \<le> i0))"

definition relax_val :: "buf \<Rightarrow> buf \<Rightarrow> real \<Rightarrow> real \<Rightarrow> fluid \<Rightarrow> fluid \<Rightarrow> int \<Rightarrow> int \<Rightarrow> real" where
  "relax_val x x0 a c s t i j =
     (cell x0 i j s + a * (cell x (i - 1) j t + cell x (i + 1) j s +
        cell x i (j - 1) t + cell x i (j + 1) s)) / c"

definition relaxed ::
  "buf \<Rightarrow> buf \<Rightarrow> real \<Rightarrow> real \<Rightarrow> fluid \<Rightarrow> int \<Rightarrow> int \<Rightarrow> fluid \<Rightarrow> bool" where
  "relaxed x x0 a c s j0 i0 t \<longleftrightarrow>
     frame {x} s t \<and>
     (\<forall>i j. inb s i \<and> inb s j \<longrightarrow>
        cell x i j t = (if passed s j0 i0 i j then relax_val x x0 a c s t i j else cell x i j s))"

subsection \<open>The default preset, states at rest, total dye\<close>

text \<open>The simulation parameters of the default preset (\<open>defaultPreset.state.simulation\<close>).\<close>

definition defaultPreset_simulation :: SimulationParameters where
  "defaultPreset_simulation = \<lparr>resolution = 128, viscosity = 1 / 1000, diffusion = 1 / 100000,
     dissipation = 995 / 1000, curlStrength = 20, pressureIterations = 20\<rparr>"




subsection \<open>Runs\<close>






subsection \<open>The phases of a step\<close>

text \<open>The confinement proper (curl, force, boundary rule), without the guard on the
  strength.\<close>

definition confine :: "buf \<Rightarrow> buf \<Rightarrow> real \<Rightarrow> real \<Rightarrow> fluid \<Rightarrow> fluid option" where
  "confine velocX velocY epsilon dt s =
     (let N = size_f s in do {
        s \<leftarrow> forM [1..N] (\<lambda>j. forM [1..N] (vorticity_curl velocX velocY j)) s;
        s \<leftarrow> forM [1..N] (\<lambda>j. forM [1..N] (vorticity_force velocX velocY epsilon dt j)) s;
        s \<leftarrow> setBounds 1 velocX s;
        setBounds 2 velocY s
      })"

text \<open>The eight phases of a step as the specification lists them, for the configuration
  \<open>cfg\<close> in force when the step starts: (1) diffuse both velocity components into the
  Prev buffers, (2) project the Prev buffers, (3) advect both components from Prev by
  Prev, (4) confine vorticity unless the strength is \<open>\<le> 0\<close>, (5) project the current
  buffers with the Prev buffers as scratch, (6) diffuse the density, (7) advect the density
  by the current velocity, (8) multiply every dye cell by the dissipation factor.\<close>

definition step_phases :: "real \<Rightarrow> SimulationParameters \<Rightarrow> (fluid \<Rightarrow> fluid option) list" where
  "step_phases dt cfg =
     [diffuse 1 VelocityXPrev VelocityX (viscosity cfg) dt,
      diffuse 2 VelocityYPrev VelocityY (viscosity cfg) dt,
      project VelocityXPrev VelocityYPrev VelocityX VelocityY,
      advect 1 VelocityX VelocityXPrev VelocityXPrev VelocityYPrev dt,
      advect 2 VelocityY VelocityYPrev VelocityXPrev VelocityYPrev dt,
      (if curlStrength cfg \<le> 0 then Some else confine VelocityX VelocityY (curlStrength cfg) dt),
      project VelocityX VelocityY VelocityXPrev VelocityYPrev,
      diffuse 0 DensityPrev Density (diffusion cfg) dt,
      advect 0 Density DensityPrev VelocityX VelocityY dt,
      (\<lambda>s. Some (s\<lparr>density := map (\<lambda>v. v * dissipation cfg) (density s)\<rparr>))]"

subsection \<open>A stirred state\<close>












section \<open>Basic facts\<close>

lemma get_put: "get y (put x a s) = (if y = x then a else get y s)"
  by (cases x; cases y) simp_all

lemma size_put [simp]: "size_f (put x a s) = size_f s"
  by (cases x) simp_all

lemma config_put [simp]: "config (put x a s) = config s"
  by (cases x) simp_all

lemma gridSize_put [simp]: "gridSize (put x a s) = gridSize s"
  by (cases x) simp_all

lemma put_put [simp]: "put x a (put x b s) = put x a s"
  by (cases x) simp_all

lemma IX_put: "IX (put x a s) i j = IX s i j"
  by (simp add: IX_def)

lemma grid_ok_length: "grid_ok s \<Longrightarrow> length (get x s) = nat ((size_f s + 2) * (size_f s + 2))"
  by (cases x) (simp_all add: grid_ok_def Let_def)

lemma grid_ok_put: "grid_ok s \<Longrightarrow> length a = length (get x s) \<Longrightarrow> grid_ok (put x a s)"
  by (cases x) (simp_all add: grid_ok_def Let_def)

lemma IX_range:
  assumes "inb s i" "inb s j"
  shows "0 \<le> IX s i j" "IX s i j < (size_f s + 2) * (size_f s + 2)"
proof -
  let ?M = "size_f s + 2"
  from assms have b: "0 \<le> i" "i < ?M" "0 \<le> j" "j + 1 \<le> ?M" "0 \<le> ?M"
    by (simp_all add: inb_def)
  have "0 \<le> ?M * j" using b by simp
  then show "0 \<le> IX s i j" using b by (simp add: IX_def)
  have "?M * (j + 1) \<le> ?M * ?M" using b by (intro mult_left_mono) simp_all
  then show "IX s i j < ?M * ?M" using b by (simp add: IX_def algebra_simps)
qed

lemma IX_inj:
  assumes "inb s i" "inb s j" "inb s i'" "inb s j'"
  shows "IX s i j = IX s i' j' \<longleftrightarrow> i = i' \<and> j = j'"
proof
  let ?M = "size_f s + 2"
  assume e: "IX s i j = IX s i' j'"
  from assms have b: "0 \<le> i" "i < ?M" "0 \<le> i'" "i' < ?M" by (simp_all add: inb_def)
  have "(i + ?M * j) mod ?M = (i' + ?M * j') mod ?M" using e by (simp add: IX_def)
  then have i: "i = i'" using b by simp
  have "(i + ?M * j) div ?M = (i' + ?M * j') div ?M" using e by (simp add: IX_def)
  then have "j = j'" using b by simp
  with i show "i = i' \<and> j = j'" by simp
qed simp

lemma rd_cell:
  "grid_ok s \<Longrightarrow> inb s i \<Longrightarrow> inb s j \<Longrightarrow> rd x (IX s i j) s = Some (cell x i j s)"
  using IX_range [of s i j] by (simp add: rd_def rd_arr_def cell_def grid_ok_length)

lemma wr_upd:
  "grid_ok s \<Longrightarrow> inb s i \<Longrightarrow> inb s j \<Longrightarrow> wr x (IX s i j) v s = Some (upd x i j v s)"
  using IX_range [of s i j] by (simp add: wr_def wr_arr_def upd_def grid_ok_length)

lemma rd_cell_sz:
  "grid_ok t \<Longrightarrow> size_f t = size_f s \<Longrightarrow> inb t i \<Longrightarrow> inb t j \<Longrightarrow>
   rd x (IX s i j) t = Some (cell x i j t)"
  using rd_cell [of t i j x] by (simp add: IX_def)

lemma wr_upd_sz:
  "grid_ok t \<Longrightarrow> size_f t = size_f s \<Longrightarrow> inb t i \<Longrightarrow> inb t j \<Longrightarrow>
   wr x (IX s i j) v t = Some (upd x i j v t)"
  using wr_upd [of t i j x v] by (simp add: IX_def)

lemma size_upd [simp]: "size_f (upd x i j v s) = size_f s"
  by (simp add: upd_def)

lemma config_upd [simp]: "config (upd x i j v s) = config s"
  by (simp add: upd_def)

lemma gridSize_upd [simp]: "gridSize (upd x i j v s) = gridSize s"
  by (simp add: upd_def)

lemma IX_upd: "IX (upd x i j v s) = IX s"
  by (simp add: IX_def fun_eq_iff upd_def)

lemma inb_upd [simp]: "inb (upd x i j v s) = inb s"
  by (simp add: inb_def fun_eq_iff)

lemma grid_ok_upd [simp]: "grid_ok s \<Longrightarrow> grid_ok (upd x i j v s)"
  by (simp add: upd_def grid_ok_put)

lemma cell_upd_other [simp]: "y \<noteq> x \<Longrightarrow> cell y i' j' (upd x i j v s) = cell y i' j' s"
  by (simp add: cell_def upd_def get_put IX_put)

lemma get_upd_other [simp]: "y \<noteq> x \<Longrightarrow> get y (upd x i j v s) = get y s"
  by (simp add: upd_def get_put)

lemma length_get_upd [simp]: "length (get y (upd x i j v s)) = length (get y s)"
  by (simp add: upd_def get_put)

lemma cell_upd_same:
  assumes "grid_ok s" "inb s i" "inb s j" "inb s i'" "inb s j'"
  shows "cell x i' j' (upd x i j v s) = (if i' = i \<and> j' = j then v else cell x i' j' s)"
proof -
  have r: "nat (IX s i j) < length (get x s)"
    using IX_range [OF assms(2,3)] assms(1) by (simp add: grid_ok_length)
  have "nat (IX s i' j') = nat (IX s i j) \<longleftrightarrow> i' = i \<and> j' = j"
    using IX_inj [OF assms(4,5,2,3)] IX_range(1) [OF assms(2,3)] IX_range(1) [OF assms(4,5)]
    by (simp add: nat_eq_iff)
  then show ?thesis using r
    by (auto simp add: cell_def upd_def get_put nth_list_update IX_put)
qed

lemma forM_upto_inv:
  assumes "I (lo - 1) s" "lo \<le> hi + 1"
    and "\<And>i t. lo \<le> i \<Longrightarrow> i \<le> hi \<Longrightarrow> I (i - 1) t \<Longrightarrow> \<exists>t'. f i t = Some t' \<and> I i t'"
  shows "\<exists>t'. forM [lo..hi] f s = Some t' \<and> I hi t'"
  using assms
proof (induction "nat (hi + 1 - lo)" arbitrary: lo s)
  case 0
  then have "lo = hi + 1" by simp
  with 0 show ?case by simp
next
  case (Suc n)
  then have le: "lo \<le> hi" by simp
  from Suc.prems(3) [of lo s] le Suc.prems(1)
  obtain t where t: "f lo s = Some t" "I lo t" by auto
  have "\<exists>t'. forM [lo + 1..hi] f t = Some t' \<and> I hi t'"
  proof (rule Suc.hyps(1))
    show "n = nat (hi + 1 - (lo + 1))" using Suc.hyps(2) by simp
    show "I (lo + 1 - 1) t" using t by simp
    show "lo + 1 \<le> hi + 1" using le by simp
    show "\<And>i t. lo + 1 \<le> i \<Longrightarrow> i \<le> hi \<Longrightarrow> I (i - 1) t \<Longrightarrow> \<exists>t'. f i t = Some t' \<and> I i t'"
      using Suc.prems(3) by simp
  qed
  then show ?case using le t by (simp add: upto_rec1 [of lo hi])
qed

lemma forM_inv:
  assumes "I s" and "\<And>i t. i \<in> set xs \<Longrightarrow> I t \<Longrightarrow> \<exists>t'. f i t = Some t' \<and> I t'"
  shows "\<exists>t'. forM xs f s = Some t' \<and> I t'"
  using assms
proof (induction xs arbitrary: s)
  case Nil
  then show ?case by simp
next
  case (Cons a xs)
  from Cons.prems(2) [of a s] Cons.prems(1) obtain t where t: "f a s = Some t" "I t" by auto
  from Cons.IH [OF t(2)] Cons.prems(2) have "\<exists>t'. forM xs f t = Some t' \<and> I t'" by simp
  with t show ?case by simp
qed

subsection \<open>Dye read-out\<close>

lemma lin_range:
  fixes i j M M' :: int
  assumes "0 \<le> i" "i < M" "0 \<le> j" "j < M'"
  shows "0 \<le> i + M * j" "i + M * j < M * M'"
proof -
  have M: "0 \<le> M" using assms by simp
  have "0 \<le> M * j" using M assms by simp
  then show "0 \<le> i + M * j" using assms by simp
  have "M * (j + 1) \<le> M * M'" using M assms by (intro mult_left_mono) simp_all
  then show "i + M * j < M * M'" using assms by (simp add: algebra_simps)
qed

lemma getDyeField_cell_ok:
  assumes "grid_ok s" "1 \<le> x" "x \<le> size_f s" "1 \<le> y" "y \<le> size_f s"
    and "length dat = nat (size_f s * size_f s)"
  shows "getDyeField_cell s y x dat =
    Some (dat[nat ((x - 1) + size_f s * (y - 1)) := clamp01 (cell Density x y s)])"
proof -
  have "0 \<le> (x - 1) + size_f s * (y - 1)" "(x - 1) + size_f s * (y - 1) < size_f s * size_f s"
    using lin_range [of "x - 1" "size_f s" "y - 1" "size_f s"] assms by simp_all
  moreover have eq: "(y - 1) * size_f s + (x - 1) = (x - 1) + size_f s * (y - 1)"
    by (simp add: algebra_simps)
  moreover have "inb s x" "inb s y" using assms by (simp_all add: inb_def)
  ultimately show ?thesis
    unfolding getDyeField_cell_def Let_def eq
    using assms by (simp add: rd_cell wr_arr_def clamp01_def)
qed

lemma getDyeField_row:
  assumes "grid_ok s" "1 \<le> y" "y \<le> size_f s" "dyeDone s (size_f s * (y - 1)) dat"
  shows "\<exists>dat'. forM [1..size_f s] (getDyeField_cell s y) dat = Some dat' \<and>
           dyeDone s (size_f s * y) dat'"
proof -
  let ?N = "size_f s"
  let ?I = "\<lambda>x dat. dyeDone s (x + ?N * (y - 1)) dat"
  have "\<exists>dat'. forM [1..?N] (getDyeField_cell s y) dat = Some dat' \<and> ?I ?N dat'"
  proof (rule forM_upto_inv [where I = ?I])
    show "?I (1 - 1) dat" using assms(4) by simp
    show "1 \<le> ?N + 1" using assms by simp
  next
    fix x t
    assume x: "1 \<le> x" "x \<le> ?N" and t: "?I (x - 1) t"
    let ?k = "(x - 1) + ?N * (y - 1)"
    let ?t' = "t[nat ?k := clamp01 (cell Density x y s)]"
    have len: "length t = nat (?N * ?N)" using t by (simp add: dyeDone_def)
    have c: "getDyeField_cell s y x t = Some ?t'"
      using getDyeField_cell_ok [OF assms(1) x assms(2,3) len] .
    have k: "0 \<le> ?k" "?k < ?N * ?N"
      using lin_range [of "x - 1" ?N "y - 1" ?N] x assms by simp_all
    have md: "?k mod ?N = x - 1" "?k div ?N = y - 1" using x by simp_all
    have at: "dyeAt s (nat ?k) = clamp01 (cell Density x y s)"
      using k md by (simp add: dyeAt_def)
    have "dyeDone s (x + ?N * (y - 1)) ?t'"
      unfolding dyeDone_def
    proof (intro conjI allI impI)
      show "length ?t' = nat (?N * ?N)" using len by simp
      fix k :: nat
      assume kk: "int k < x + ?N * (y - 1)"
      show "?t' ! k = dyeAt s k"
      proof (cases "k = nat ?k")
        case True
        then show ?thesis using at k len by simp
      next
        case False
        then have "int k < ?k" using kk k by linarith
        then have "t ! k = dyeAt s k" using t by (simp add: dyeDone_def)
        then show ?thesis using False by simp
      qed
    qed
    with c show "\<exists>t'. getDyeField_cell s y x t = Some t' \<and> ?I x t'" by simp
  qed
  then show ?thesis by (simp add: algebra_simps)
qed

lemma getDyeField_loops:
  assumes "grid_ok s" "0 \<le> size_f s"
  shows "\<exists>dat. forM [1..size_f s] (\<lambda>y. forM [1..size_f s] (getDyeField_cell s y))
              (newFloat32Array (size_f s * size_f s)) = Some dat \<and>
           dyeDone s (size_f s * size_f s) dat"
proof (rule forM_upto_inv [where I = "\<lambda>y. dyeDone s (size_f s * y)"])
  show "dyeDone s (size_f s * (1 - 1)) (newFloat32Array (size_f s * size_f s))"
    by (simp add: dyeDone_def newFloat32Array_def)
  show "1 \<le> size_f s + 1" using assms by simp
  show "\<And>i t. 1 \<le> i \<Longrightarrow> i \<le> size_f s \<Longrightarrow> dyeDone s (size_f s * (i - 1)) t \<Longrightarrow>
     \<exists>t'. forM [1..size_f s] (getDyeField_cell s i) t = Some t' \<and> dyeDone s (size_f s * i) t'"
    using getDyeField_row [OF assms(1)] by simp
qed


subsection \<open>Reconfiguration\<close>

lemma getDyeField_size:
  assumes "grid_ok s"
  shows "\<exists>d. getDyeField s = Some d \<and> size_d d = size_f s"
proof (cases "0 \<le> size_f s")
  case True
  from getDyeField_loops [OF assms True] show ?thesis
    by (auto simp add: getDyeField_def Let_def)
next
  case False
  then have "[1..size_f s] = []" by simp
  then show ?thesis by (simp add: getDyeField_def Let_def)
qed

lemma get_resize:
  "get x (resize n s) = replicate (nat ((n + 2) * (n + 2))) 0"
  by (cases x) (simp_all add: resize_def Let_def newFloat32Array_def)

lemma grid_ok_resize: "grid_ok (resize n s)"
  by (simp add: grid_ok_def resize_def Let_def newFloat32Array_def)

subsection \<open>Boundary conditions\<close>

lemma frame_refl: "grid_ok s \<Longrightarrow> frame X s s"
  by (simp add: frame_def)

lemma frame_trans: "frame X s t \<Longrightarrow> frame Y t u \<Longrightarrow> X \<subseteq> Z \<Longrightarrow> Y \<subseteq> Z \<Longrightarrow> frame Z s u"
  by (simp add: frame_def) (metis subsetD)

lemma frame_upd: "grid_ok s \<Longrightarrow> x \<in> X \<Longrightarrow> frame X s (upd x i j v s)"
  by (simp add: frame_def) (metis get_upd_other)

lemma frame_inb: "frame X s t \<Longrightarrow> inb t = inb s"
  by (simp add: frame_def inb_def fun_eq_iff)

lemma frame_cell: "frame X s t \<Longrightarrow> y \<notin> X \<Longrightarrow> cell y i j t = cell y i j s"
  by (simp add: frame_def cell_def IX_def)

lemma setBounds_edges_ok:
  assumes "grid_ok t" "1 \<le> i" "i \<le> size_f t"
  shows "setBounds_edges b x i t = Some
    (upd x i (size_f t + 1) (if b = 2 then - cell x i (size_f t) t else cell x i (size_f t) t)
    (upd x i 0 (if b = 2 then - cell x i 1 t else cell x i 1 t)
    (upd x (size_f t + 1) i (if b = 1 then - cell x (size_f t) i t else cell x (size_f t) i t)
    (upd x 0 i (if b = 1 then - cell x 1 i t else cell x 1 i t) t))))"
  using assms
  by (simp add: setBounds_edges_def Let_def rd_cell wr_upd cell_upd_same inb_def)

lemma frame_upd_step: "frame X s t \<Longrightarrow> x \<in> X \<Longrightarrow> frame X s (upd x i j v t)"
  using frame_trans [of X s t X "upd x i j v t" X] frame_upd [of t x X i j v]
  by (simp add: frame_def)

lemma setBounds_edges_step:
  assumes "1 \<le> size_f s" "1 \<le> i" "i \<le> size_f s" "edges_done b x s (i - 1) t"
  shows "\<exists>t'. setBounds_edges b x i t = Some t' \<and> edges_done b x s i t'"
proof -
  let ?N = "size_f s"
  from assms(4) have fr: "frame {x} s t"
    and int: "\<And>p q. interior s p q \<Longrightarrow> cell x p q t = cell x p q s"
    and old: "\<And>j. 1 \<le> j \<Longrightarrow> j \<le> i - 1 \<Longrightarrow>
        cell x 0 j t = (if b = 1 then - cell x 1 j s else cell x 1 j s) \<and>
        cell x (?N + 1) j t = (if b = 1 then - cell x ?N j s else cell x ?N j s) \<and>
        cell x j 0 t = (if b = 2 then - cell x j 1 s else cell x j 1 s) \<and>
        cell x j (?N + 1) t = (if b = 2 then - cell x j ?N s else cell x j ?N s)"
    by (simp_all add: edges_done_def)
  from fr have g: "grid_ok t" and n: "size_f t = ?N" by (simp_all add: frame_def)
  let ?t1 = "upd x 0 i (if b = 1 then - cell x 1 i t else cell x 1 i t) t"
  let ?t2 = "upd x (?N + 1) i (if b = 1 then - cell x ?N i t else cell x ?N i t) ?t1"
  let ?t3 = "upd x i 0 (if b = 2 then - cell x i 1 t else cell x i 1 t) ?t2"
  let ?t4 = "upd x i (?N + 1) (if b = 2 then - cell x i ?N t else cell x i ?N t) ?t3"
  have r: "setBounds_edges b x i t = Some ?t4"
    using setBounds_edges_ok [OF g, of i b x] assms n by simp
  have iv: "cell x 1 i t = cell x 1 i s" "cell x ?N i t = cell x ?N i s"
    "cell x i 1 t = cell x i 1 s" "cell x i ?N t = cell x i ?N s"
    using assms by (simp_all add: int interior_def)
  have c: "cell x p q ?t4 =
      (if p = i \<and> q = ?N + 1 then (if b = 2 then - cell x i ?N s else cell x i ?N s)
       else if p = i \<and> q = 0 then (if b = 2 then - cell x i 1 s else cell x i 1 s)
       else if p = ?N + 1 \<and> q = i then (if b = 1 then - cell x ?N i s else cell x ?N i s)
       else if p = 0 \<and> q = i then (if b = 1 then - cell x 1 i s else cell x 1 i s)
       else cell x p q t)" if "inb s p" "inb s q" for p q
    using that g n assms(1-3) unfolding iv by (simp add: cell_upd_same inb_def)
  have "edges_done b x s i ?t4"
    unfolding edges_done_def
  proof (intro conjI allI impI)
    show "frame {x} s ?t4" using fr by (intro frame_upd_step) simp_all
  next
    fix p q assume "interior s p q"
    then show "cell x p q ?t4 = cell x p q s"
      using c [of p q] int [of p q] by (simp add: interior_def inb_def)
  next
    fix j assume j: "1 \<le> j \<and> j \<le> i"
    show "cell x 0 j ?t4 = (if b = 1 then - cell x 1 j s else cell x 1 j s)"
      using c [of 0 j] old [of j] j assms(1-3) by (simp add: inb_def)
    show "cell x (?N + 1) j ?t4 = (if b = 1 then - cell x ?N j s else cell x ?N j s)"
      using c [of "?N + 1" j] old [of j] j assms(1-3) by (simp add: inb_def)
    show "cell x j 0 ?t4 = (if b = 2 then - cell x j 1 s else cell x j 1 s)"
      using c [of j 0] old [of j] j assms(1-3) by (simp add: inb_def)
    show "cell x j (?N + 1) ?t4 = (if b = 2 then - cell x j ?N s else cell x j ?N s)"
      using c [of j "?N + 1"] old [of j] j assms(1-3) by (simp add: inb_def)
  qed
  with r show ?thesis by simp
qed

lemma setBounds_edges_loop:
  assumes "grid_ok s" "1 \<le> size_f s"
  shows "\<exists>t. forM [1..size_f s] (setBounds_edges b x) s = Some t \<and> edges_done b x s (size_f s) t"
proof (rule forM_upto_inv [where I = "edges_done b x s"])
  show "edges_done b x s (1 - 1) s" using assms by (simp add: edges_done_def frame_refl)
  show "1 \<le> size_f s + 1" using assms by simp
  show "\<And>i t. 1 \<le> i \<Longrightarrow> i \<le> size_f s \<Longrightarrow> edges_done b x s (i - 1) t \<Longrightarrow>
      \<exists>t'. setBounds_edges b x i t = Some t' \<and> edges_done b x s i t'"
    using setBounds_edges_step [OF assms(2)] by simp
qed

lemma setBounds_corners_ok:
  assumes "grid_ok t" "1 \<le> size_f t"
  shows "setBounds_corners x t = Some
    (upd x (size_f t + 1) (size_f t + 1)
        (0.5 * (cell x (size_f t) (size_f t + 1) t + cell x (size_f t + 1) (size_f t) t))
    (upd x (size_f t + 1) 0 (0.5 * (cell x (size_f t) 0 t + cell x (size_f t + 1) 1 t))
    (upd x 0 (size_f t + 1) (0.5 * (cell x 1 (size_f t + 1) t + cell x 0 (size_f t) t))
    (upd x 0 0 (0.5 * (cell x 1 0 t + cell x 0 1 t)) t))))"
  using assms
  by (simp add: setBounds_corners_def Let_def rd_cell wr_upd cell_upd_same inb_def)

lemma setBounds_post:
  assumes "grid_ok s" "1 \<le> size_f s"
  shows "\<exists>s'. setBounds b x s = Some s' \<and> frame {x} s s' \<and> mirrored b x s' \<and>
     (\<forall>i j. interior s i j \<longrightarrow> cell x i j s' = cell x i j s)"
proof -
  let ?N = "size_f s"
  from setBounds_edges_loop [OF assms, of b x] obtain t where
    t: "forM [1..?N] (setBounds_edges b x) s = Some t" and e: "edges_done b x s ?N t" by blast
  from e have fr: "frame {x} s t"
    and int: "\<And>p q. interior s p q \<Longrightarrow> cell x p q t = cell x p q s"
    and ed: "\<And>j. 1 \<le> j \<Longrightarrow> j \<le> ?N \<Longrightarrow>
        cell x 0 j t = (if b = 1 then - cell x 1 j s else cell x 1 j s) \<and>
        cell x (?N + 1) j t = (if b = 1 then - cell x ?N j s else cell x ?N j s) \<and>
        cell x j 0 t = (if b = 2 then - cell x j 1 s else cell x j 1 s) \<and>
        cell x j (?N + 1) t = (if b = 2 then - cell x j ?N s else cell x j ?N s)"
    by (simp_all add: edges_done_def)
  from fr have g: "grid_ok t" and n: "size_f t = ?N" by (simp_all add: frame_def)
  let ?c1 = "upd x 0 0 (0.5 * (cell x 1 0 t + cell x 0 1 t)) t"
  let ?c2 = "upd x 0 (?N + 1) (0.5 * (cell x 1 (?N + 1) t + cell x 0 ?N t)) ?c1"
  let ?c3 = "upd x (?N + 1) 0 (0.5 * (cell x ?N 0 t + cell x (?N + 1) 1 t)) ?c2"
  let ?c4 = "upd x (?N + 1) (?N + 1) (0.5 * (cell x ?N (?N + 1) t + cell x (?N + 1) ?N t)) ?c3"
  have r: "setBounds_corners x t = Some ?c4"
    using setBounds_corners_ok [OF g, of x] assms(2) n by simp
  have c: "cell x p q ?c4 =
      (if p = ?N + 1 \<and> q = ?N + 1 then 0.5 * (cell x ?N (?N + 1) t + cell x (?N + 1) ?N t)
       else if p = ?N + 1 \<and> q = 0 then 0.5 * (cell x ?N 0 t + cell x (?N + 1) 1 t)
       else if p = 0 \<and> q = ?N + 1 then 0.5 * (cell x 1 (?N + 1) t + cell x 0 ?N t)
       else if p = 0 \<and> q = 0 then 0.5 * (cell x 1 0 t + cell x 0 1 t)
       else cell x p q t)" if "inb s p" "inb s q" for p q
    using that g n assms(2) by (simp add: cell_upd_same inb_def)
  have sz: "size_f ?c4 = ?N" using n by simp
  have f4: "frame {x} s ?c4" using fr by (intro frame_upd_step) simp_all
  have i4: "cell x p q ?c4 = cell x p q s" if "interior s p q" for p q
    using c [of p q] int [of p q] that by (simp add: interior_def inb_def)
  have "mirrored b x ?c4"
    unfolding mirrored_def Let_def sz
  proof (intro conjI allI impI)
    fix j assume j: "1 \<le> j \<and> j \<le> ?N"
    then have ij: "interior s 1 j" "interior s ?N j" "interior s j 1" "interior s j ?N"
      using assms(2) by (simp_all add: interior_def)
    show "cell x 0 j ?c4 = (if b = 1 then - cell x 1 j ?c4 else cell x 1 j ?c4)"
      using c [of 0 j] ed [of j] j assms(2) i4 [OF ij(1)] by (simp add: inb_def)
    show "cell x (?N + 1) j ?c4 = (if b = 1 then - cell x ?N j ?c4 else cell x ?N j ?c4)"
      using c [of "?N + 1" j] ed [of j] j assms(2) i4 [OF ij(2)] by (simp add: inb_def)
    show "cell x j 0 ?c4 = (if b = 2 then - cell x j 1 ?c4 else cell x j 1 ?c4)"
      using c [of j 0] ed [of j] j assms(2) i4 [OF ij(3)] by (simp add: inb_def)
    show "cell x j (?N + 1) ?c4 = (if b = 2 then - cell x j ?N ?c4 else cell x j ?N ?c4)"
      using c [of j "?N + 1"] ed [of j] j assms(2) i4 [OF ij(4)] by (simp add: inb_def)
  next
    show "cell x 0 0 ?c4 = 0.5 * (cell x 1 0 ?c4 + cell x 0 1 ?c4)"
      using c [of 0 0] c [of 1 0] c [of 0 1] assms(2) by (simp add: inb_def)
    show "cell x 0 (?N + 1) ?c4 = 0.5 * (cell x 1 (?N + 1) ?c4 + cell x 0 ?N ?c4)"
      using c [of 0 "?N + 1"] c [of 1 "?N + 1"] c [of 0 ?N] assms(2) by (simp add: inb_def)
    show "cell x (?N + 1) 0 ?c4 = 0.5 * (cell x ?N 0 ?c4 + cell x (?N + 1) 1 ?c4)"
      using c [of "?N + 1" 0] c [of ?N 0] c [of "?N + 1" 1] assms(2) by (simp add: inb_def)
    show "cell x (?N + 1) (?N + 1) ?c4 =
        0.5 * (cell x ?N (?N + 1) ?c4 + cell x (?N + 1) ?N ?c4)"
      using c [of "?N + 1" "?N + 1"] c [of ?N "?N + 1"] c [of "?N + 1" ?N] assms(2)
      by (simp add: inb_def)
  qed
  with t r f4 i4 show ?thesis by (simp add: setBounds_def)
qed

subsection \<open>Operations return and keep the buffers' lengths\<close>

lemma frame_same: "frame X s t \<Longrightarrow> frame X t u \<Longrightarrow> frame X s u"
  using frame_trans [of X s t X u X] by simp

lemma frame_mono: "frame X s t \<Longrightarrow> X \<subseteq> Y \<Longrightarrow> frame Y s t"
  by (simp add: frame_def) (metis subsetD)

lemma frame_interior: "frame X s t \<Longrightarrow> interior t = interior s"
  by (simp add: frame_def interior_def fun_eq_iff)

lemma forM_grid_frame:
  assumes "grid_ok s" "0 \<le> size_f s"
    and "\<And>i j t. grid_ok t \<Longrightarrow> size_f t = size_f s \<Longrightarrow> config t = config s \<Longrightarrow>
           interior t i j \<Longrightarrow> \<exists>t'. f j i t = Some t' \<and> frame X t t'"
  shows "\<exists>s'. forM [1..size_f s] (\<lambda>j. forM [1..size_f s] (f j)) s = Some s' \<and> frame X s s'"
proof (rule forM_inv [where I = "frame X s"])
  show "frame X s s" using assms(1) by (rule frame_refl)
next
  fix j t
  assume j: "j \<in> set [1..size_f s]" and t: "frame X s t"
  show "\<exists>t'. forM [1..size_f s] (f j) t = Some t' \<and> frame X s t'"
  proof (rule forM_inv [where I = "frame X s"])
    show "frame X s t" by (rule t)
  next
    fix i u
    assume i: "i \<in> set [1..size_f s]" and u: "frame X s u"
    from u have "grid_ok u" "size_f u = size_f s" "config u = config s"
      by (simp_all add: frame_def)
    moreover have "interior u i j" using i j u by (simp add: interior_def frame_def)
    ultimately obtain u' where "f j i u = Some u'" "frame X u u'"
      using assms(3) [of u i j] by blast
    then show "\<exists>t'. f j i u = Some t' \<and> frame X s t'"
      using frame_same [OF u] by simp
  qed
qed

lemma setBounds_frame:
  assumes "grid_ok s" "1 \<le> size_f s"
  shows "\<exists>s'. setBounds b x s = Some s' \<and> frame {x} s s'"
  using setBounds_post [OF assms, of b x] by blast

lemma linearSolve_cell_ok:
  assumes "grid_ok s" "interior s i j"
  shows "linearSolve_cell x x0 a c j i s = Some (upd x i j
     ((cell x0 i j s + a * (cell x (i - 1) j s + cell x (i + 1) j s +
        cell x i (j - 1) s + cell x i (j + 1) s)) / c) s)"
  using assms by (simp add: linearSolve_cell_def rd_cell wr_upd inb_def interior_def)

lemma linearSolve_sweep_frame:
  assumes "grid_ok s" "1 \<le> size_f s"
  shows "\<exists>s'. linearSolve_sweep b x x0 a c s = Some s' \<and> frame {x} s s'"
proof -
  have "\<exists>t. forM [1..size_f s] (\<lambda>j. forM [1..size_f s] (linearSolve_cell x x0 a c j)) s = Some t
      \<and> frame {x} s t"
  proof (rule forM_grid_frame)
    show "grid_ok s" "0 \<le> size_f s" using assms by simp_all
    fix i j t assume "grid_ok t" "interior t i j"
    then show "\<exists>t'. linearSolve_cell x x0 a c j i t = Some t' \<and> frame {x} t t'"
      by (simp add: linearSolve_cell_ok frame_upd)
  qed
  then obtain t where t: "forM [1..size_f s] (\<lambda>j. forM [1..size_f s] (linearSolve_cell x x0 a c j)) s = Some t"
    and ft: "frame {x} s t" by blast
  from ft have "grid_ok t" "1 \<le> size_f t" using assms by (simp_all add: frame_def)
  from setBounds_frame [OF this, of b x] obtain s' where
    "setBounds b x t = Some s'" "frame {x} t s'" by blast
  with t ft show ?thesis using frame_same by (auto simp add: linearSolve_sweep_def)
qed

lemma linearSolve_frame:
  assumes "grid_ok s" "1 \<le> size_f s"
  shows "\<exists>s'. linearSolve b x x0 a c s = Some s' \<and> frame {x} s s'"
  unfolding linearSolve_def
proof (rule forM_inv [where I = "frame {x} s"])
  show "frame {x} s s" using assms(1) by (rule frame_refl)
next
  fix k t assume t: "frame {x} s t"
  then have "grid_ok t" "1 \<le> size_f t" using assms by (simp_all add: frame_def)
  from linearSolve_sweep_frame [OF this, of b x x0 a c] t
  show "\<exists>t'. linearSolve_sweep b x x0 a c t = Some t' \<and> frame {x} s t'"
    using frame_same by blast
qed

lemma diffuse_frame:
  assumes "grid_ok s" "1 \<le> size_f s"
  shows "\<exists>s'. diffuse b x x0 diff dt s = Some s' \<and> frame {x} s s'"
  using linearSolve_frame [OF assms] by (simp add: diffuse_def Let_def)

lemma floor_clamped:
  fixes x :: real and N :: int
  assumes "1 / 2 \<le> x" "x \<le> real_of_int N + 1 / 2"
  shows "0 \<le> \<lfloor>x\<rfloor>" "\<lfloor>x\<rfloor> \<le> N"
proof -
  show "0 \<le> \<lfloor>x\<rfloor>" using assms by simp
  have "x < real_of_int (N + 1)" using assms by simp
  then have "\<lfloor>x\<rfloor> < N + 1" by (simp only: floor_less_iff)
  then show "\<lfloor>x\<rfloor> \<le> N" by simp
qed

lemma advect_cell_frame:
  assumes "grid_ok s" "interior s i j"
  shows "\<exists>s'. advect_cell d d0 velocX velocY dt0 j i s = Some s' \<and> frame {d} s s'"
proof -
  let ?N = "size_f s"
  define x0 where "x0 = real_of_int i - dt0 * cell velocX i j s"
  define x1 where "x1 = (if x0 < 0.5 then 0.5 else x0)"
  define x where "x = (if x1 > real_of_int ?N + 0.5 then real_of_int ?N + 0.5 else x1)"
  define y0 where "y0 = real_of_int j - dt0 * cell velocY i j s"
  define y1 where "y1 = (if y0 < 0.5 then 0.5 else y0)"
  define y where "y = (if y1 > real_of_int ?N + 0.5 then real_of_int ?N + 0.5 else y1)"
  have N: "1 \<le> ?N" using assms(2) by (simp add: interior_def)
  have "1 / 2 \<le> x" "x \<le> real_of_int ?N + 1 / 2" using N by (simp_all add: x_def x1_def)
  from floor_clamped [OF this] have fx: "inb s \<lfloor>x\<rfloor>" "inb s (\<lfloor>x\<rfloor> + 1)" by (simp_all add: inb_def)
  have "1 / 2 \<le> y" "y \<le> real_of_int ?N + 1 / 2" using N by (simp_all add: y_def y1_def)
  from floor_clamped [OF this] have fy: "inb s \<lfloor>y\<rfloor>" "inb s (\<lfloor>y\<rfloor> + 1)" by (simp_all add: inb_def)
  have ij: "inb s i" "inb s j" using assms(2) by (simp_all add: interior_def inb_def)
  have "advect_cell d d0 velocX velocY dt0 j i s = Some (upd d i j
     ((1 - (x - real_of_int \<lfloor>x\<rfloor>)) *
        ((1 - (y - real_of_int \<lfloor>y\<rfloor>)) * cell d0 \<lfloor>x\<rfloor> \<lfloor>y\<rfloor> s +
         (y - real_of_int \<lfloor>y\<rfloor>) * cell d0 \<lfloor>x\<rfloor> (\<lfloor>y\<rfloor> + 1) s) +
      (x - real_of_int \<lfloor>x\<rfloor>) *
        ((1 - (y - real_of_int \<lfloor>y\<rfloor>)) * cell d0 (\<lfloor>x\<rfloor> + 1) \<lfloor>y\<rfloor> s +
         (y - real_of_int \<lfloor>y\<rfloor>) * cell d0 (\<lfloor>x\<rfloor> + 1) (\<lfloor>y\<rfloor> + 1) s)) s)"
    unfolding advect_cell_def Let_def
    using assms(1) ij fx fy
    by (simp only: rd_cell wr_upd bind.bind_lunit x_def [symmetric] x1_def [symmetric]
        x0_def [symmetric] y_def [symmetric] y1_def [symmetric] y0_def [symmetric])
  then show ?thesis using assms(1) by (simp add: frame_upd)
qed

subsection \<open>Advection and projection return\<close>

lemma advect_frame:
  assumes "grid_ok s" "1 \<le> size_f s"
  shows "\<exists>s'. advect b d d0 velocX velocY dt s = Some s' \<and> frame {d} s s'"
proof -
  let ?f = "advect_cell d d0 velocX velocY (dt * real_of_int (size_f s))"
  have "\<exists>t. forM [1..size_f s] (\<lambda>j. forM [1..size_f s] (?f j)) s = Some t \<and> frame {d} s t"
  proof (rule forM_grid_frame)
    show "grid_ok s" "0 \<le> size_f s" using assms by simp_all
    fix i j t assume "grid_ok t" "interior t i j"
    then show "\<exists>t'. ?f j i t = Some t' \<and> frame {d} t t'" by (rule advect_cell_frame)
  qed
  then obtain t where t: "forM [1..size_f s] (\<lambda>j. forM [1..size_f s] (?f j)) s = Some t"
    and ft: "frame {d} s t" by blast
  from ft have "grid_ok t" "1 \<le> size_f t" using assms by (simp_all add: frame_def)
  from setBounds_frame [OF this, of b d] obtain s' where
    "setBounds b d t = Some s'" "frame {d} t s'" by blast
  with t ft show ?thesis using frame_same by (auto simp add: advect_def Let_def)
qed

lemma project_div_frame:
  assumes "grid_ok s" "interior s i j"
  shows "\<exists>s'. project_div velocX velocY p dv j i s = Some s' \<and> frame {velocX, velocY, p, dv} s s'"
proof -
  have i: "inb s i" "inb s j" "inb s (i + 1)" "inb s (i - 1)" "inb s (j + 1)" "inb s (j - 1)"
    using assms(2) by (simp_all add: interior_def inb_def)
  let ?v = "- 0.5 * (cell velocX (i + 1) j s - cell velocX (i - 1) j s +
       cell velocY i (j + 1) s - cell velocY i (j - 1) s) / real_of_int (size_f s)"
  have "project_div velocX velocY p dv j i s = Some (upd p i j 0 (upd dv i j ?v s))"
    using assms(1) i by (simp add: project_div_def Let_def rd_cell wr_upd)
  moreover have "frame {velocX, velocY, p, dv} s (upd p i j 0 (upd dv i j ?v s))"
    using assms(1) by (intro frame_upd_step frame_upd) simp_all
  ultimately show ?thesis by simp
qed

lemma project_grad_frame:
  assumes "grid_ok s" "interior s i j"
  shows "\<exists>s'. project_grad velocX velocY p j i s = Some s' \<and> frame {velocX, velocY, p, dv} s s'"
proof -
  have i: "inb s i" "inb s j" "inb s (i + 1)" "inb s (i - 1)" "inb s (j + 1)" "inb s (j - 1)"
    using assms(2) by (simp_all add: interior_def inb_def)
  obtain v where a: "rd velocX (IX s i j) s = Some v" using assms(1) i by (simp add: rd_cell)
  obtain e where b: "rd p (IX s (i + 1) j) s = Some e" using assms(1) i by (simp add: rd_cell)
  obtain w where c: "rd p (IX s (i - 1) j) s = Some w" using assms(1) i by (simp add: rd_cell)
  let ?t = "upd velocX i j (v - 0.5 * real_of_int (size_f s) * (e - w)) s"
  have g: "grid_ok ?t" using assms(1) by simp
  have it: "inb ?t i" "inb ?t j" "inb ?t (i + 1)" "inb ?t (i - 1)" "inb ?t (j + 1)" "inb ?t (j - 1)"
    using i by simp_all
  obtain vy where d: "rd velocY (IX ?t i j) ?t = Some vy" using g it by (simp add: rd_cell)
  obtain u where e: "rd p (IX ?t i (j + 1)) ?t = Some u" using g it by (simp add: rd_cell)
  obtain dd where f: "rd p (IX ?t i (j - 1)) ?t = Some dd" using g it by (simp add: rd_cell)
  let ?u = "upd velocY i j (vy - 0.5 * real_of_int (size_f s) * (u - dd)) ?t"
  have "project_grad velocX velocY p j i s = Some ?u"
    using a b c d e f assms(1) i g it by (simp add: project_grad_def Let_def wr_upd)
  moreover have "frame {velocX, velocY, p, dv} s ?u"
    using assms(1) by (intro frame_upd_step frame_upd) simp_all
  ultimately show ?thesis by simp
qed

lemma then_frame:
  assumes "frame X s t" "\<exists>u. f t = Some u \<and> frame Y t u" "X \<subseteq> Z" "Y \<subseteq> Z"
  shows "\<exists>u. Option.bind (Some t) f = Some u \<and> frame Z s u"
  using assms frame_trans [of X s t Y _ Z] by auto

lemma project_frame:
  assumes "grid_ok s" "1 \<le> size_f s"
  shows "\<exists>s'. project velocX velocY p dv s = Some s' \<and> frame {velocX, velocY, p, dv} s s'"
proof -
  let ?X = "{velocX, velocY, p, dv}"
  let ?N = "size_f s"
  have ok: "grid_ok t \<and> 1 \<le> size_f t \<and> size_f t = ?N" if "frame ?X s t" for t
    using that assms by (simp add: frame_def)
  obtain t1 where t1: "forM [1..?N] (\<lambda>j. forM [1..?N] (project_div velocX velocY p dv j)) s = Some t1"
    and f1: "frame ?X s t1"
    using forM_grid_frame [of s "project_div velocX velocY p dv" ?X] project_div_frame assms
    by force
  obtain t2 where t2: "setBounds 0 dv t1 = Some t2" and f2: "frame ?X s t2"
    using setBounds_frame [of t1 0 dv] ok [OF f1] frame_trans [OF f1, of "{dv}" _ ?X] by auto
  obtain t3 where t3: "setBounds 0 p t2 = Some t3" and f3: "frame ?X s t3"
    using setBounds_frame [of t2 0 p] ok [OF f2] frame_trans [OF f2, of "{p}" _ ?X] by auto
  obtain t4 where t4: "linearSolve 0 p dv 1 4 t3 = Some t4" and f4: "frame ?X s t4"
    using linearSolve_frame [of t3 0 p dv 1 4] ok [OF f3] frame_trans [OF f3, of "{p}" _ ?X] by auto
  obtain t5 where t5: "forM [1..?N] (\<lambda>j. forM [1..?N] (project_grad velocX velocY p j)) t4 = Some t5"
    and f5: "frame ?X s t5"
    using forM_grid_frame [of t4 "project_grad velocX velocY p" ?X]
      project_grad_frame [where dv = dv] ok [OF f4] frame_same [OF f4]
    by force
  obtain t6 where t6: "setBounds 1 velocX t5 = Some t6" and f6: "frame ?X s t6"
    using setBounds_frame [of t5 1 velocX] ok [OF f5] frame_trans [OF f5, of "{velocX}" _ ?X] by auto
  obtain t7 where t7: "setBounds 2 velocY t6 = Some t7" and f7: "frame ?X s t7"
    using setBounds_frame [of t6 2 velocY] ok [OF f6] frame_trans [OF f6, of "{velocY}" _ ?X] by auto
  have n: "size_f t1 = ?N" "size_f t2 = ?N" "size_f t3 = ?N" "size_f t4 = ?N"
    using ok f1 f2 f3 f4 by simp_all
  show ?thesis
    using t1 t2 t3 t4 t5 t6 t7 f7 by (simp add: project_def Let_def)
qed

subsection \<open>Vorticity confinement and dissipation return\<close>

lemma vorticity_curl_frame:
  assumes "grid_ok s" "interior s i j"
  shows "\<exists>s'. vorticity_curl velocX velocY j i s = Some s' \<and> frame {Curl, velocX, velocY} s s'"
proof -
  have i: "inb s i" "inb s j" "inb s (i + 1)" "inb s (i - 1)" "inb s (j + 1)" "inb s (j - 1)"
    using assms(2) by (simp_all add: interior_def inb_def)
  let ?v = "0.5 * (cell velocY (i + 1) j s - cell velocY (i - 1) j s -
       (cell velocX i (j + 1) s - cell velocX i (j - 1) s))"
  have "vorticity_curl velocX velocY j i s = Some (upd Curl i j ?v s)"
    using assms(1) i by (simp add: vorticity_curl_def Let_def rd_cell wr_upd)
  moreover have "frame {Curl, velocX, velocY} s (upd Curl i j ?v s)"
    using assms(1) by (intro frame_upd) simp_all
  ultimately show ?thesis by simp
qed

lemma vorticity_force_frame:
  assumes "grid_ok s" "interior s i j"
  shows "\<exists>s'. vorticity_force velocX velocY epsilon dt j i s = Some s' \<and>
     frame {Curl, velocX, velocY} s s'"
proof -
  have i: "inb s i" "inb s j" "inb s (i + 1)" "inb s (i - 1)" "inb s (j + 1)" "inb s (j - 1)"
    using assms(2) by (simp_all add: interior_def inb_def)
  obtain ce where a: "rd Curl (IX s (i + 1) j) s = Some ce" using assms(1) i by (simp add: rd_cell)
  obtain cw where b: "rd Curl (IX s (i - 1) j) s = Some cw" using assms(1) i by (simp add: rd_cell)
  obtain cu where c: "rd Curl (IX s i (j + 1)) s = Some cu" using assms(1) i by (simp add: rd_cell)
  obtain cd where d: "rd Curl (IX s i (j - 1)) s = Some cd" using assms(1) i by (simp add: rd_cell)
  obtain vo where e: "rd Curl (IX s i j) s = Some vo" using assms(1) i by (simp add: rd_cell)
  obtain vx where f: "rd velocX (IX s i j) s = Some vx" using assms(1) i by (simp add: rd_cell)
  define Nx where "Nx = (\<bar>ce\<bar> - \<bar>cw\<bar>) * 0.5"
  define Ny where "Ny = (\<bar>cu\<bar> - \<bar>cd\<bar>) * 0.5"
  define len where "len = sqrt (Nx * Nx + Ny * Ny) + 1 / 100000"
  let ?t = "upd velocX i j (vx + Ny / len * - (epsilon * vo) * dt) s"
  have g: "grid_ok ?t" using assms(1) by simp
  have it: "inb ?t i" "inb ?t j" using i by simp_all
  obtain vy where h: "rd velocY (IX s i j) ?t = Some vy"
    using rd_cell [OF g it, of velocY] by (simp add: IX_upd)
  let ?u = "upd velocY i j (vy + Nx / len * (epsilon * vo) * dt) ?t"
  have w1: "wr velocX (IX s i j) v s = Some (upd velocX i j v s)" for v
    using assms(1) i by (simp add: wr_upd)
  have w2: "wr velocY (IX s i j) v ?t = Some (upd velocY i j v ?t)" for v
    using wr_upd [OF g it, of velocY v] by (simp add: IX_upd)
  have "vorticity_force velocX velocY epsilon dt j i s = Some ?u"
    unfolding vorticity_force_def Let_def
    by (simp only: a b c d e f h w1 w2 bind.bind_lunit Nx_def [symmetric] Ny_def [symmetric]
        len_def [symmetric])
  moreover have "frame {Curl, velocX, velocY} s ?u"
    using assms(1) by (intro frame_upd_step frame_upd) simp_all
  ultimately show ?thesis by simp
qed

lemma applyVorticityConfinement_frame:
  assumes "grid_ok s" "1 \<le> size_f s"
  shows "\<exists>s'. applyVorticityConfinement velocX velocY dt s = Some s' \<and>
     frame {Curl, velocX, velocY} s s'"
proof (cases "curlStrength (config s) \<le> 0")
  case True
  then show ?thesis using assms(1) by (simp add: applyVorticityConfinement_def frame_refl)
next
  case False
  let ?X = "{Curl, velocX, velocY}"
  let ?N = "size_f s"
  let ?e = "curlStrength (config s)"
  have ok: "grid_ok t \<and> 1 \<le> size_f t \<and> size_f t = ?N" if "frame ?X s t" for t
    using that assms by (simp add: frame_def)
  obtain t1 where t1: "forM [1..?N] (\<lambda>j. forM [1..?N] (vorticity_curl velocX velocY j)) s = Some t1"
    and f1: "frame ?X s t1"
    using forM_grid_frame [of s "vorticity_curl velocX velocY" ?X] vorticity_curl_frame assms
    by force
  obtain t2 where t2: "forM [1..?N] (\<lambda>j. forM [1..?N] (vorticity_force velocX velocY ?e dt j)) t1 = Some t2"
    and f2: "frame ?X s t2"
    using forM_grid_frame [of t1 "vorticity_force velocX velocY ?e dt" ?X]
      vorticity_force_frame ok [OF f1] frame_same [OF f1]
    by force
  obtain t3 where t3: "setBounds 1 velocX t2 = Some t3" and f3: "frame ?X s t3"
    using setBounds_frame [of t2 1 velocX] ok [OF f2] frame_trans [OF f2, of "{velocX}" _ ?X] by auto
  obtain t4 where t4: "setBounds 2 velocY t3 = Some t4" and f4: "frame ?X s t4"
    using setBounds_frame [of t3 2 velocY] ok [OF f3] frame_trans [OF f3, of "{velocY}" _ ?X] by auto
  show ?thesis
    using False t1 t2 t3 t4 f4 by (simp add: applyVorticityConfinement_def Let_def)
qed

lemma dissipate_list_step:
  assumes "i < length d"
  shows "(map g (take i d) @ drop i d)[i := g (d ! i)] = map g (take (Suc i) d) @ drop (Suc i) d"
proof -
  have "drop i d = d ! i # drop (Suc i) d" using assms by (simp add: Cons_nth_drop_Suc)
  then show ?thesis using assms
    by (simp add: list_update_append take_Suc_conv_app_nth)
qed

lemma dissipate_cell_step:
  assumes "0 \<le> i" "i < int (length (density s))"
  shows "dissipate_cell (dissipation (config s)) i (dissipated s (nat i)) =
     Some (dissipated s (nat (i + 1)))"
proof -
  let ?g = "\<lambda>v. v * dissipation (config s)"
  have n: "nat i < length (density s)" using assms by simp
  have s: "nat (i + 1) = Suc (nat i)" using assms by simp
  have r: "(map ?g (take (nat i) (density s)) @ drop (nat i) (density s)) ! nat i = density s ! nat i"
    using n by (simp add: nth_append)
  show ?thesis
    using assms n dissipate_list_step [OF n, of ?g]
    by (simp add: dissipate_cell_def dissipated_def rd_def rd_arr_def wr_def wr_arr_def r s)
qed

lemma applyDissipation_eq:
  "applyDissipation s = Some (s\<lparr>density := map (\<lambda>v. v * dissipation (config s)) (density s)\<rparr>)"
proof -
  let ?n = "int (length (density s))"
  have "\<exists>t. forM [0..?n - 1] (dissipate_cell (dissipation (config s))) s = Some t \<and>
      t = dissipated s (nat (?n - 1 + 1))"
  proof (rule forM_upto_inv [where I = "\<lambda>k t. t = dissipated s (nat (k + 1))"])
    show "s = dissipated s (nat (0 - 1 + 1))" by (simp add: dissipated_def)
    show "0 \<le> ?n - 1 + 1" by simp
    fix i t assume "0 \<le> i" "i \<le> ?n - 1" "t = dissipated s (nat (i - 1 + 1))"
    then show "\<exists>t'. dissipate_cell (dissipation (config s)) i t = Some t' \<and>
        t' = dissipated s (nat (i + 1))"
      using dissipate_cell_step [of i s] by simp
  qed
  then show ?thesis by (simp add: applyDissipation_def Let_def dissipated_def)
qed

lemma applyDissipation_frame:
  assumes "grid_ok s"
  shows "\<exists>s'. applyDissipation s = Some s' \<and> frame {Density} s s'"
proof -
  let ?s' = "s\<lparr>density := map (\<lambda>v. v * dissipation (config s)) (density s)\<rparr>"
  have "get y ?s' = get y s" if "y \<noteq> Density" for y using that by (cases y) simp_all
  then have "frame {Density} s ?s'" using assms by (simp add: frame_def grid_ok_def Let_def)
  then show ?thesis by (simp add: applyDissipation_eq)
qed

subsection \<open>Dye impulse\<close>

lemma impulse_partial_row:
  "impulse_partial r cx cy impulse j (- r - 1) px py =
   impulse_partial r cx cy impulse (j - 1) r px py"
proof (cases "- r \<le> px - cx \<and> px - cx \<le> r")
  case True
  then show ?thesis by (auto simp add: impulse_partial_def)
next
  case False
  then have "impulse_added r cx cy impulse px py = 0"
    by (auto simp add: impulse_added_def Let_def)
  then show ?thesis by (simp add: impulse_partial_def)
qed

lemma impulse_partial_start:
  "impulse_partial r cx cy impulse (- r - 1) r px py = 0"
  by (auto simp add: impulse_partial_def impulse_added_def Let_def)

lemma impulse_partial_end:
  "impulse_partial r cx cy impulse r r px py = impulse_added r cx cy impulse px py"
  by (auto simp add: impulse_partial_def impulse_added_def Let_def)

lemma impulse_partial_step:
  "impulse_partial r cx cy impulse j i px py =
     (if px - cx = i \<and> py - cy = j then impulse_added r cx cy impulse px py
      else impulse_partial r cx cy impulse j (i - 1) px py)"
  by (auto simp add: impulse_partial_def)

lemma impulse_partial_before:
  "impulse_partial r cx cy impulse j (i - 1) (cx + i) (cy + j) = 0"
  by (simp add: impulse_partial_def)

lemma addImpulse_cell_step:
  assumes "1 \<le> r" "- r \<le> i" "i \<le> r" "- r \<le> j" "j \<le> r"
    and "impulse_done s r cx cy impulse j (i - 1) t"
  shows "\<exists>t'. addImpulse_cell r cx cy impulse j i t = Some t' \<and>
     impulse_done s r cx cy impulse j i t'"
proof -
  let ?px = "cx + i" and ?py = "cy + j"
  let ?w = "1 - sqrt (real_of_int (i * i + j * j)) / real_of_int r"
  from assms(6) have fr: "frame {Density} s t"
    and c: "\<And>px py. inb s px \<Longrightarrow> inb s py \<Longrightarrow>
        cell Density px py t = cell Density px py s +
          (if interior s px py then impulse_partial r cx cy impulse j (i - 1) px py else 0)"
    by (simp_all add: impulse_done_def)
  from fr have g: "grid_ok t" and n: "size_f t = size_f s" by (simp_all add: frame_def)
  have ib: "inb t = inb s" "interior t = interior s"
    using n by (simp_all add: inb_def interior_def fun_eq_iff)
  have add: "impulse_added r cx cy impulse ?px ?py = (if 0 < ?w then impulse * ?w * 0.01 else 0)"
    using assms(1-5) by (simp add: impulse_added_def Let_def)
  show ?thesis
  proof (cases "interior s ?px ?py \<and> 0 < ?w")
    case False
    then have r: "addImpulse_cell r cx cy impulse j i t = Some t"
      by (auto simp add: addImpulse_cell_def Let_def n interior_def)
    have "impulse_done s r cx cy impulse j i t"
      unfolding impulse_done_def
    proof (intro conjI allI impI)
      show "frame {Density} s t" by (rule fr)
      fix px py assume p: "inb s px \<and> inb s py"
      have "interior s px py \<Longrightarrow> px - cx = i \<and> py - cy = j \<Longrightarrow>
          impulse_added r cx cy impulse px py = impulse_partial r cx cy impulse j (i - 1) px py"
        using False add impulse_partial_before [of r cx cy impulse j i]
        by (auto simp add: algebra_simps)
      then show "cell Density px py t = cell Density px py s +
          (if interior s px py then impulse_partial r cx cy impulse j i px py else 0)"
        using c [of px py] p by (simp add: impulse_partial_step [of r cx cy impulse j i])
    qed
    with r show ?thesis by simp
  next
    case True
    then have int: "interior s ?px ?py" and w: "0 < ?w" by simp_all
    from int have ip: "inb t ?px" "inb t ?py" by (simp_all add: ib interior_def inb_def)
    define v where "v = cell Density ?px ?py t + impulse * ?w * 0.01"
    let ?t' = "upd Density ?px ?py v t"
    have r: "addImpulse_cell r cx cy impulse j i t = Some ?t'"
      using int w g ip
      by (simp add: addImpulse_cell_def Let_def n interior_def rd_cell wr_upd v_def)
    have v: "v = cell Density ?px ?py s + impulse_added r cx cy impulse ?px ?py"
      using c [of ?px ?py] int w add impulse_partial_before [of r cx cy impulse j i] ip
      by (simp add: v_def ib)
    have "impulse_done s r cx cy impulse j i ?t'"
      unfolding impulse_done_def
    proof (intro conjI allI impI)
      show "frame {Density} s ?t'" using fr by (intro frame_upd_step) simp_all
      fix px py assume p: "inb s px \<and> inb s py"
      then have pt: "inb t px" "inb t py" by (simp_all add: ib)
      show "cell Density px py ?t' = cell Density px py s +
          (if interior s px py then impulse_partial r cx cy impulse j i px py else 0)"
      proof (cases "px = ?px \<and> py = ?py")
        case True
        then have "cell Density px py ?t' = v"
          using cell_upd_same [OF g ip pt, of Density v] by simp
        then show ?thesis
          using True v int by (simp add: impulse_partial_step [of r cx cy impulse j i])
      next
        case False
        then have "cell Density px py ?t' = cell Density px py t"
          using cell_upd_same [OF g ip pt, of Density v] by (simp only: if_False)
        moreover have "\<not> (px - cx = i \<and> py - cy = j)" using False by auto
        then have "impulse_partial r cx cy impulse j i px py =
            impulse_partial r cx cy impulse j (i - 1) px py"
          by (simp only: impulse_partial_step [of r cx cy impulse j i] if_False)
        ultimately show ?thesis using c [of px py] p by simp
      qed
    qed
    with r show ?thesis by simp
  qed
qed

lemma addImpulse_row:
  assumes "1 \<le> r" "- r \<le> j" "j \<le> r" "impulse_done s r cx cy impulse (j - 1) r t"
  shows "\<exists>t'. forM [- r..r] (addImpulse_cell r cx cy impulse j) t = Some t' \<and>
     impulse_done s r cx cy impulse j r t'"
proof (rule forM_upto_inv [where I = "impulse_done s r cx cy impulse j"])
  show "impulse_done s r cx cy impulse j (- r - 1) t"
    using assms(4) by (simp add: impulse_done_def impulse_partial_row)
  show "- r \<le> r + 1" using assms(1) by simp
  show "\<And>i t. - r \<le> i \<Longrightarrow> i \<le> r \<Longrightarrow> impulse_done s r cx cy impulse j (i - 1) t \<Longrightarrow>
      \<exists>t'. addImpulse_cell r cx cy impulse j i t = Some t' \<and> impulse_done s r cx cy impulse j i t'"
    using addImpulse_cell_step [OF assms(1) _ _ assms(2,3)] by simp
qed

lemma addImpulse_loops:
  assumes "grid_ok s" "1 \<le> r"
  shows "\<exists>t. forM [- r..r] (\<lambda>j. forM [- r..r] (addImpulse_cell r cx cy impulse j)) s = Some t \<and>
     impulse_done s r cx cy impulse r r t"
proof (rule forM_upto_inv [where I = "\<lambda>j. impulse_done s r cx cy impulse j r"])
  show "impulse_done s r cx cy impulse (- r - 1) r s"
    using assms(1) by (simp add: impulse_done_def impulse_partial_start frame_refl)
  show "- r \<le> r + 1" using assms(2) by simp
  show "\<And>j t. - r \<le> j \<Longrightarrow> j \<le> r \<Longrightarrow> impulse_done s r cx cy impulse (j - 1) r t \<Longrightarrow>
      \<exists>t'. forM [- r..r] (addImpulse_cell r cx cy impulse j) t = Some t' \<and>
        impulse_done s r cx cy impulse j r t'"
    using addImpulse_row [OF assms(2)] by simp
qed

lemma addImpulse_post:
  assumes "grid_ok s"
  shows "\<exists>s'. addImpulse x y radius strength audioFactor s = Some s' \<and>
     impulse_done s (max \<lfloor>radius * real_of_int (size_f s)\<rfloor> 1)
       \<lfloor>x * real_of_int (size_f s)\<rfloor> \<lfloor>y * real_of_int (size_f s)\<rfloor>
       (strength * (1 + audioFactor))
       (max \<lfloor>radius * real_of_int (size_f s)\<rfloor> 1) (max \<lfloor>radius * real_of_int (size_f s)\<rfloor> 1) s'"
  using addImpulse_loops [OF assms, of "max \<lfloor>radius * real_of_int (size_f s)\<rfloor> 1"]
  by (simp add: addImpulse_def Let_def)

subsection \<open>The time step and the impulses return\<close>

lemma addVelocityImpulse_outside:
  assumes "\<not> interior s \<lfloor>x * real_of_int (size_f s)\<rfloor> \<lfloor>y * real_of_int (size_f s)\<rfloor>"
  shows "addVelocityImpulse x y vx vy forceStrength s = Some s"
  using assms by (auto simp add: addVelocityImpulse_def Let_def interior_def)

lemma addVelocityImpulse_inside:
  assumes "grid_ok s" "interior s \<lfloor>x * real_of_int (size_f s)\<rfloor> \<lfloor>y * real_of_int (size_f s)\<rfloor>"
  shows "addVelocityImpulse x y vx vy forceStrength s = Some
    (upd VelocityY \<lfloor>x * real_of_int (size_f s)\<rfloor> \<lfloor>y * real_of_int (size_f s)\<rfloor>
       (cell VelocityY \<lfloor>x * real_of_int (size_f s)\<rfloor> \<lfloor>y * real_of_int (size_f s)\<rfloor> s
          + vy / 1000 * forceStrength)
    (upd VelocityX \<lfloor>x * real_of_int (size_f s)\<rfloor> \<lfloor>y * real_of_int (size_f s)\<rfloor>
       (cell VelocityX \<lfloor>x * real_of_int (size_f s)\<rfloor> \<lfloor>y * real_of_int (size_f s)\<rfloor> s
          + vx / 1000 * forceStrength) s))"
proof -
  define px where "px = \<lfloor>x * real_of_int (size_f s)\<rfloor>"
  define py where "py = \<lfloor>y * real_of_int (size_f s)\<rfloor>"
  have i: "interior s px py" using assms(2) by (simp add: px_def py_def)
  then have b: "inb s px" "inb s py" by (simp_all add: interior_def inb_def)
  have "\<not> (px < 1 \<or> px > size_f s \<or> py < 1 \<or> py > size_f s)"
    using i by (auto simp add: interior_def)
  then show ?thesis
    unfolding addVelocityImpulse_def Let_def px_def [symmetric] py_def [symmetric]
    using assms(1) b by (simp add: rd_cell_sz wr_upd_sz)
qed



lemma step_chain:
  assumes "grid_ok s" "1 \<le> size_f s"
  shows "\<exists>t1 t2 t3 t4 t5 t6 t7 t8 t9 t10.
     diffuse 1 VelocityXPrev VelocityX (viscosity (config s)) dt s = Some t1 \<and>
     diffuse 2 VelocityYPrev VelocityY (viscosity (config s)) dt t1 = Some t2 \<and>
     project VelocityXPrev VelocityYPrev VelocityX VelocityY t2 = Some t3 \<and>
     advect 1 VelocityX VelocityXPrev VelocityXPrev VelocityYPrev dt t3 = Some t4 \<and>
     advect 2 VelocityY VelocityYPrev VelocityXPrev VelocityYPrev dt t4 = Some t5 \<and>
     applyVorticityConfinement VelocityX VelocityY dt t5 = Some t6 \<and>
     project VelocityX VelocityY VelocityXPrev VelocityYPrev t6 = Some t7 \<and>
     diffuse 0 DensityPrev Density (diffusion (config s)) dt t7 = Some t8 \<and>
     advect 0 Density DensityPrev VelocityX VelocityY dt t8 = Some t9 \<and>
     applyDissipation t9 = Some t10 \<and> step dt s = Some t10 \<and>
     frame UNIV s t5 \<and> frame UNIV s t9 \<and> frame UNIV s t10"
proof -
  let ?N = "size_f s"
  have ok: "grid_ok t \<and> 1 \<le> size_f t" if "frame UNIV s t" for t
    using that assms by (simp add: frame_def)
  have cf: "config t = config s" if "frame UNIV s t" for t
    using that by (simp add: frame_def)
  have nx: "\<exists>u. f t = Some u \<and> frame UNIV s u"
    if "frame UNIV s t" "\<And>t. grid_ok t \<Longrightarrow> 1 \<le> size_f t \<Longrightarrow> \<exists>u. f t = Some u \<and> frame X t u"
    for f t X
    using that ok [of t] frame_trans [of UNIV s t X _ UNIV] by (metis subset_UNIV)
  obtain t1 where t1: "diffuse 1 VelocityXPrev VelocityX (viscosity (config s)) dt s = Some t1"
    and f1: "frame UNIV s t1"
    using nx [OF frame_refl [OF assms(1)], of _ "{VelocityXPrev}"] diffuse_frame by blast
  obtain t2 where t2: "diffuse 2 VelocityYPrev VelocityY (viscosity (config s)) dt t1 = Some t2"
    and f2: "frame UNIV s t2"
    using nx [OF f1, of _ "{VelocityYPrev}"] diffuse_frame by blast
  obtain t3 where t3: "project VelocityXPrev VelocityYPrev VelocityX VelocityY t2 = Some t3"
    and f3: "frame UNIV s t3"
    using nx [OF f2, of _ "{VelocityXPrev, VelocityYPrev, VelocityX, VelocityY}"] project_frame by blast
  obtain t4 where t4: "advect 1 VelocityX VelocityXPrev VelocityXPrev VelocityYPrev dt t3 = Some t4"
    and f4: "frame UNIV s t4"
    using nx [OF f3, of _ "{VelocityX}"] advect_frame by blast
  obtain t5 where t5: "advect 2 VelocityY VelocityYPrev VelocityXPrev VelocityYPrev dt t4 = Some t5"
    and f5: "frame UNIV s t5"
    using nx [OF f4, of _ "{VelocityY}"] advect_frame by blast
  obtain t6 where t6: "applyVorticityConfinement VelocityX VelocityY dt t5 = Some t6"
    and f6: "frame UNIV s t6"
    using nx [OF f5, of _ "{Curl, VelocityX, VelocityY}"] applyVorticityConfinement_frame by blast
  obtain t7 where t7: "project VelocityX VelocityY VelocityXPrev VelocityYPrev t6 = Some t7"
    and f7: "frame UNIV s t7"
    using nx [OF f6, of _ "{VelocityX, VelocityY, VelocityXPrev, VelocityYPrev}"] project_frame by blast
  obtain t8 where t8: "diffuse 0 DensityPrev Density (diffusion (config s)) dt t7 = Some t8"
    and f8: "frame UNIV s t8"
    using nx [OF f7, of _ "{DensityPrev}"] diffuse_frame by blast
  obtain t9 where t9: "advect 0 Density DensityPrev VelocityX VelocityY dt t8 = Some t9"
    and f9: "frame UNIV s t9"
    using nx [OF f8, of _ "{Density}"] advect_frame by blast
  obtain t10 where t10: "applyDissipation t9 = Some t10" and f10: "frame UNIV s t10"
    using nx [OF f9, of applyDissipation "{Density}"] applyDissipation_frame by blast
  have "step dt s = Some t10"
    using t1 t2 t3 t4 t5 t6 t7 t8 t9 t10 by (simp add: step_def Let_def)
  with t1 t2 t3 t4 t5 t6 t7 t8 t9 t10 f5 f9 f10 show ?thesis by blast
qed


subsection \<open>Relaxation sweeps\<close>

lemma passed_step:
  "interior s i j \<Longrightarrow> passed s j i p q \<longleftrightarrow> passed s j (i - 1) p q \<or> (p = i \<and> q = j)"
  by (auto simp add: passed_def)

lemma passed_not_west: "passed s j (i - 1) p q \<Longrightarrow> \<not> (p - 1 = i \<and> q = j)"
  by (auto simp add: passed_def)

lemma passed_not_south: "passed s j (i - 1) p q \<Longrightarrow> \<not> (p = i \<and> q - 1 = j)"
  by (auto simp add: passed_def)

lemma passed_row: "passed s j (1 - 1) p q \<longleftrightarrow> passed s (j - 1) (size_f s) p q"
  by (auto simp add: passed_def interior_def)

lemma passed_none: "\<not> passed s (1 - 1) i0 p q"
  by (auto simp add: passed_def interior_def)

lemma passed_all: "passed s (size_f s) (size_f s) p q \<longleftrightarrow> interior s p q"
  by (auto simp add: passed_def interior_def)

lemma linearSolve_cell_step:
  assumes "x \<noteq> x0" "interior s i j" "relaxed x x0 a c s j (i - 1) t"
  shows "\<exists>t'. linearSolve_cell x x0 a c j i t = Some t' \<and> relaxed x x0 a c s j i t'"
proof -
  from assms(3) have fr: "frame {x} s t"
    and c: "\<And>p q. inb s p \<Longrightarrow> inb s q \<Longrightarrow> cell x p q t =
          (if passed s j (i - 1) p q then relax_val x x0 a c s t p q else cell x p q s)"
    by (simp_all add: relaxed_def)
  from fr have g: "grid_ok t" and n: "size_f t = size_f s" by (simp_all add: frame_def)
  have ib: "inb t = inb s" "interior t = interior s"
    using n by (simp_all add: inb_def interior_def fun_eq_iff)
  have ij: "inb s i" "inb s j" "inb s (i + 1)" "inb s (i - 1)" "inb s (j + 1)" "inb s (j - 1)"
    using assms(2) by (simp_all add: interior_def inb_def)
  have np: "\<not> passed s j (i - 1) (i + 1) j" "\<not> passed s j (i - 1) i (j + 1)"
    "\<not> passed s j (i - 1) i j"
    by (simp_all add: passed_def)
  have e: "cell x (i + 1) j t = cell x (i + 1) j s" using c [OF ij(3) ij(2)] np by simp
  have u: "cell x i (j + 1) t = cell x i (j + 1) s" using c [OF ij(1) ij(5)] np by simp
  have z: "cell x0 i j t = cell x0 i j s" using frame_cell [OF fr, of x0] assms(1) by simp
  let ?t' = "upd x i j (relax_val x x0 a c s t i j) t"
  have r: "linearSolve_cell x x0 a c j i t = Some ?t'"
    using linearSolve_cell_ok [OF g, of i j x x0 a c] assms(2)
    by (simp add: ib e u z relax_val_def)
  have same: "cell x p q ?t' = cell x p q t" if "inb s p" "inb s q" "\<not> (p = i \<and> q = j)" for p q
    using cell_upd_same [OF g, of i j p q x] ij that by (simp only: ib if_False)
  have new: "cell x i j ?t' = relax_val x x0 a c s t i j"
    using cell_upd_same [OF g, of i j i j x] ij by (simp add: ib)
  have rv: "relax_val x x0 a c s ?t' p q = relax_val x x0 a c s t p q"
    if "inb s (p - 1)" "inb s q" "inb s p" "inb s (q - 1)"
      "\<not> (p - 1 = i \<and> q = j)" "\<not> (p = i \<and> q - 1 = j)" for p q
    using same [OF that(1,2,5)] same [OF that(3,4,6)] by (simp add: relax_val_def)
  have "relaxed x x0 a c s j i ?t'"
    unfolding relaxed_def
  proof (intro conjI allI impI)
    show "frame {x} s ?t'" using fr by (intro frame_upd_step) simp_all
    fix p q assume pq: "inb s p \<and> inb s q"
    show "cell x p q ?t' =
        (if passed s j i p q then relax_val x x0 a c s ?t' p q else cell x p q s)"
    proof (cases "p = i \<and> q = j")
      case True
      have "relax_val x x0 a c s ?t' i j = relax_val x x0 a c s t i j"
        using rv [of i j] ij by simp
      moreover have "passed s j i i j" using assms(2) by (simp add: passed_def)
      ultimately show ?thesis using True new by simp
    next
      case False
      then have s0: "cell x p q ?t' = cell x p q t" using same [of p q] pq by simp
      have pe: "passed s j i p q \<longleftrightarrow> passed s j (i - 1) p q"
        using passed_step [OF assms(2), of p q] False by simp
      show ?thesis
      proof (cases "passed s j (i - 1) p q")
        case True
        then have "interior s p q" by (simp add: passed_def)
        then have b: "inb s (p - 1)" "inb s (q - 1)" by (simp_all add: interior_def inb_def)
        have "relax_val x x0 a c s ?t' p q = relax_val x x0 a c s t p q"
          using rv [of p q] b pq passed_not_west [OF True] passed_not_south [OF True] by simp
        then show ?thesis using s0 c [of p q] pq True pe by simp
      next
        case F: False
        then show ?thesis using s0 c [of p q] pq pe by simp
      qed
    qed
  qed
  with r show ?thesis by simp
qed

lemma linearSolve_row:
  assumes "x \<noteq> x0" "1 \<le> j" "j \<le> size_f s" "relaxed x x0 a c s (j - 1) (size_f s) t"
  shows "\<exists>t'. forM [1..size_f s] (linearSolve_cell x x0 a c j) t = Some t' \<and>
     relaxed x x0 a c s j (size_f s) t'"
proof (rule forM_upto_inv [where I = "relaxed x x0 a c s j"])
  show "relaxed x x0 a c s j (1 - 1) t"
    using assms(4) unfolding relaxed_def passed_row by simp
  show "1 \<le> size_f s + 1" using assms by simp
  show "\<And>i t. 1 \<le> i \<Longrightarrow> i \<le> size_f s \<Longrightarrow> relaxed x x0 a c s j (i - 1) t \<Longrightarrow>
      \<exists>t'. linearSolve_cell x x0 a c j i t = Some t' \<and> relaxed x x0 a c s j i t'"
    using linearSolve_cell_step [OF assms(1), of s _ j] assms(2,3) by (simp add: interior_def)
qed

lemma linearSolve_pass:
  assumes "x \<noteq> x0" "grid_ok s" "0 \<le> size_f s"
  shows "\<exists>t. forM [1..size_f s] (\<lambda>j. forM [1..size_f s] (linearSolve_cell x x0 a c j)) s = Some t \<and>
     relaxed x x0 a c s (size_f s) (size_f s) t"
proof (rule forM_upto_inv [where I = "\<lambda>j. relaxed x x0 a c s j (size_f s)"])
  show "relaxed x x0 a c s (1 - 1) (size_f s) s"
    using assms(2) unfolding relaxed_def by (simp only: passed_none if_False frame_refl simp_thms)
  show "1 \<le> size_f s + 1" using assms by simp
  show "\<And>j t. 1 \<le> j \<Longrightarrow> j \<le> size_f s \<Longrightarrow> relaxed x x0 a c s (j - 1) (size_f s) t \<Longrightarrow>
      \<exists>t'. forM [1..size_f s] (linearSolve_cell x x0 a c j) t = Some t' \<and>
        relaxed x x0 a c s j (size_f s) t'"
    using linearSolve_row [OF assms(1)] by simp
qed

lemma forM_const_bind:
  "Option.bind m (forM xs (\<lambda>k. f)) = ((\<lambda>m. Option.bind m f) ^^ length xs) m"
proof (induction xs arbitrary: m)
  case Nil
  then show ?case by simp
next
  case (Cons a xs)
  have "Option.bind m (forM (a # xs) (\<lambda>k. f)) = Option.bind (Option.bind m f) (forM xs (\<lambda>k. f))"
    by (cases m) simp_all
  also have "\<dots> = ((\<lambda>m. Option.bind m f) ^^ length xs) (Option.bind m f)" by (rule Cons.IH)
  also have "\<dots> = ((\<lambda>m. Option.bind m f) ^^ length (a # xs)) m"
    using funpow_swap1 [of "\<lambda>m. Option.bind m f" "length xs" m] by simp
  finally show ?case .
qed

lemma forM_const: "forM xs (\<lambda>k. f) s = ((\<lambda>m. Option.bind m f) ^^ length xs) (Some s)"
  using forM_const_bind [of "Some s" xs f] by simp

lemma linearSolve_sweeps:
  "linearSolve b x x0 a c s =
     ((\<lambda>m. Option.bind m (linearSolve_sweep b x x0 a c)) ^^ nat (pressureIterations (config s)))
       (Some s)"
  by (simp add: linearSolve_def forM_const)

lemma linearSolve_sweep_post:
  assumes "x \<noteq> x0" "grid_ok s" "1 \<le> size_f s"
  shows "\<exists>s'. linearSolve_sweep b x x0 a c s = Some s' \<and> frame {x} s s' \<and> mirrored b x s' \<and>
     (\<forall>i j. interior s i j \<longrightarrow> cell x i j s' =
        (cell x0 i j s + a * ((if i = 1 then cell x 0 j s else cell x (i - 1) j s') +
           cell x (i + 1) j s +
           (if j = 1 then cell x i 0 s else cell x i (j - 1) s') +
           cell x i (j + 1) s)) / c)"
proof -
  let ?N = "size_f s"
  have n0: "0 \<le> ?N" using assms(3) by simp
  from linearSolve_pass [OF assms(1,2) n0, of a c] obtain t where
    t: "forM [1..?N] (\<lambda>j. forM [1..?N] (linearSolve_cell x x0 a c j)) s = Some t"
    and rx: "relaxed x x0 a c s ?N ?N t" by blast
  from rx have ft: "frame {x} s t"
    and c: "\<And>p q. inb s p \<Longrightarrow> inb s q \<Longrightarrow> cell x p q t =
          (if interior s p q then relax_val x x0 a c s t p q else cell x p q s)"
    by (simp_all add: relaxed_def passed_all)
  from ft have gt: "grid_ok t" and nt: "size_f t = ?N" by (simp_all add: frame_def)
  from setBounds_post [OF gt, of b x] assms(3) nt obtain s' where
    s': "setBounds b x t = Some s'" and fs: "frame {x} t s'" and m: "mirrored b x s'"
    and int: "\<And>i j. interior t i j \<Longrightarrow> cell x i j s' = cell x i j t" by auto
  have it: "interior t = interior s" using nt by (simp add: interior_def fun_eq_iff)
  have eq: "cell x i j s' =
        (cell x0 i j s + a * ((if i = 1 then cell x 0 j s else cell x (i - 1) j s') +
           cell x (i + 1) j s +
           (if j = 1 then cell x i 0 s else cell x i (j - 1) s') +
           cell x i (j + 1) s)) / c" if ij: "interior s i j" for i j
  proof -
    have b: "inb s i" "inb s j" "inb s (i - 1)" "inb s (j - 1)"
      using ij by (simp_all add: interior_def inb_def)
    have w: "cell x (i - 1) j t = (if i = 1 then cell x 0 j s else cell x (i - 1) j s')"
    proof (cases "i = 1")
      case True
      then show ?thesis using c [of 0 j] b by (simp add: interior_def inb_def)
    next
      case False
      then have "interior s (i - 1) j" using ij by (simp add: interior_def)
      then show ?thesis using int [of "i - 1" j] False by (simp add: it)
    qed
    have d: "cell x i (j - 1) t = (if j = 1 then cell x i 0 s else cell x i (j - 1) s')"
    proof (cases "j = 1")
      case True
      then show ?thesis using c [of i 0] b by (simp add: interior_def inb_def)
    next
      case False
      then have "interior s i (j - 1)" using ij by (simp add: interior_def)
      then show ?thesis using int [of i "j - 1"] False by (simp add: it)
    qed
    have "cell x i j s' = relax_val x x0 a c s t i j"
      using int [of i j] c [of i j] ij b by (simp add: it)
    then show ?thesis unfolding relax_val_def w d .
  qed
  have "linearSolve_sweep b x x0 a c s = Some s'"
    using t s' by (simp add: linearSolve_sweep_def)
  moreover have "frame {x} s s'" using ft fs by (rule frame_same)
  ultimately show ?thesis using m eq by blast
qed

subsection \<open>Constructed states\<close>

lemma get_constructor:
  "get x (constructor cfg) = replicate (nat ((resolution cfg + 2) * (resolution cfg + 2))) 0"
  by (cases x) (simp_all add: constructor_def Let_def newFloat32Array_def)

lemma size_constructor [simp]: "size_f (constructor cfg) = resolution cfg"
  by (simp add: constructor_def Let_def)

lemma config_constructor [simp]: "config (constructor cfg) = cfg"
  by (simp add: constructor_def Let_def)

lemma grid_ok_constructor: "grid_ok (constructor cfg)"
  by (simp add: grid_ok_def constructor_def Let_def newFloat32Array_def)

lemma cell_constructor:
  assumes "inb (constructor cfg) i" "inb (constructor cfg) j"
  shows "cell x i j (constructor cfg) = 0"
proof -
  have "nat (IX (constructor cfg) i j) < nat ((resolution cfg + 2) * (resolution cfg + 2))"
    using IX_range [OF assms] by simp
  then show ?thesis by (simp add: cell_def get_constructor)
qed

subsection \<open>The brush as a function of the cell\<close>

lemma impulse_added_dist:
  assumes "1 \<le> r"
  shows "impulse_added r cx cy impulse px py =
     (let i = px - cx; j = py - cy; dist = sqrt (real_of_int (i * i + j * j)) in
      if - r \<le> i \<and> i \<le> r \<and> - r \<le> j \<and> j \<le> r \<and> dist \<le> real_of_int r
      then (1 - dist / real_of_int r) * (impulse * 0.01) else 0)"
proof -
  define dist where "dist = sqrt (real_of_int ((px - cx) * (px - cx) + (py - cy) * (py - cy)))"
  have r: "0 < real_of_int r" using assms by simp
  have w: "0 < 1 - dist / real_of_int r \<longleftrightarrow> dist < real_of_int r"
    using r by (simp add: field_simps)
  have z: "dist = real_of_int r \<Longrightarrow> 1 - dist / real_of_int r = 0" using r by simp
  show ?thesis
    unfolding impulse_added_def Let_def dist_def [symmetric] w
    using z by (auto simp add: less_le)
qed

subsection \<open>Impulses that miss the grid\<close>

lemma forM_skip:
  assumes "\<And>i. i \<in> set xs \<Longrightarrow> f i s = Some s"
  shows "forM xs f s = Some s"
  using forM_inv [of "\<lambda>t. t = s" s xs f] assms by simp

lemma addImpulse_outside:
  assumes "\<lfloor>x * real_of_int (size_f s)\<rfloor> + max \<lfloor>radius * real_of_int (size_f s)\<rfloor> 1 < 1 \<or>
     size_f s < \<lfloor>x * real_of_int (size_f s)\<rfloor> - max \<lfloor>radius * real_of_int (size_f s)\<rfloor> 1 \<or>
     \<lfloor>y * real_of_int (size_f s)\<rfloor> + max \<lfloor>radius * real_of_int (size_f s)\<rfloor> 1 < 1 \<or>
     size_f s < \<lfloor>y * real_of_int (size_f s)\<rfloor> - max \<lfloor>radius * real_of_int (size_f s)\<rfloor> 1"
  shows "addImpulse x y radius strength audioFactor s = Some s"
proof -
  define r where "r = max \<lfloor>radius * real_of_int (size_f s)\<rfloor> 1"
  define cx where "cx = \<lfloor>x * real_of_int (size_f s)\<rfloor>"
  define cy where "cy = \<lfloor>y * real_of_int (size_f s)\<rfloor>"
  have out: "cx + r < 1 \<or> size_f s < cx - r \<or> cy + r < 1 \<or> size_f s < cy - r"
    using assms by (simp add: r_def cx_def cy_def)
  have c: "addImpulse_cell r cx cy impulse j i s = Some s"
    if "i \<in> set [- r..r]" "j \<in> set [- r..r]" for i j impulse
  proof -
    have "cx + i < 1 \<or> cx + i > size_f s \<or> cy + j < 1 \<or> cy + j > size_f s"
      using out that by auto
    then show ?thesis by (simp add: addImpulse_cell_def Let_def)
  qed
  have "forM [- r..r] (\<lambda>j. forM [- r..r] (addImpulse_cell r cx cy impulse j)) s = Some s"
    for impulse
    by (intro forM_skip c)
  then show ?thesis
    unfolding addImpulse_def Let_def r_def [symmetric] cx_def [symmetric] cy_def [symmetric]
    by simp
qed

lemma sqrt9: "sqrt 9 = 3"
proof -
  have "sqrt 9 = sqrt ((3::real)\<^sup>2)" by simp
  also have "\<dots> = \<bar>3\<bar>" by (rule real_sqrt_abs)
  finally show ?thesis by simp
qed

subsection \<open>A state at rest stays at rest\<close>















subsection \<open>Dissipation\<close>



subsection \<open>Runs of the solver\<close>


lemma size_fill [simp]:
  "size_f (clearDye s) = size_f s" "size_f (clearVelocity s) = size_f s"
  "size_f (reset s) = size_f s"
  by (simp_all add: clearDye_def clearVelocity_def reset_def Let_def)

lemma config_fill [simp]:
  "config (clearDye s) = config s" "config (clearVelocity s) = config s"
  "config (reset s) = config s"
  by (simp_all add: clearDye_def clearVelocity_def reset_def Let_def)


subsection \<open>The step does not use gridSize\<close>

lemma get_G [simp]: "get x (s\<lparr>gridSize := g\<rparr>) = get x s"
  by (cases x) simp_all

lemma put_G [simp]: "put x a (s\<lparr>gridSize := g\<rparr>) = (put x a s)\<lparr>gridSize := g\<rparr>"
  by (cases x) simp_all

lemma IX_G [simp]: "IX (s\<lparr>gridSize := g\<rparr>) = IX s"
  by (simp add: IX_def fun_eq_iff)

lemma rd_G [simp]: "rd x k (s\<lparr>gridSize := g\<rparr>) = rd x k s"
  by (simp add: rd_def)

lemma wr_G [simp]:
  "wr x k v (s\<lparr>gridSize := g\<rparr>) = map_option (\<lambda>t. t\<lparr>gridSize := g\<rparr>) (wr x k v s)"
  by (simp add: wr_def option.map_comp o_def)

lemma bind_map_G:
  "Option.bind (map_option (\<lambda>t. t\<lparr>gridSize := g\<rparr>) m) f = Option.bind m (\<lambda>t. f (t\<lparr>gridSize := g\<rparr>))"
  by (cases m) simp_all

lemma map_G_bind:
  "map_option G (Option.bind m f) = Option.bind m (\<lambda>t. map_option G (f t))"
  by (cases m) simp_all

lemmas G_simps = bind_map_G map_G_bind Let_def

lemma forM_G:
  assumes "\<And>i t. f i (t\<lparr>gridSize := g\<rparr>) = map_option (\<lambda>t. t\<lparr>gridSize := g\<rparr>) (f i t)"
  shows "forM xs f (s\<lparr>gridSize := g\<rparr>) = map_option (\<lambda>t. t\<lparr>gridSize := g\<rparr>) (forM xs f s)"
proof (induction xs arbitrary: s)
  case Nil
  then show ?case by simp
next
  case (Cons i xs)
  show ?case by (cases "f i s") (simp_all add: assms Cons.IH)
qed

lemma setBounds_G:
  "setBounds b x (s\<lparr>gridSize := g\<rparr>) = map_option (\<lambda>t. t\<lparr>gridSize := g\<rparr>) (setBounds b x s)"
proof -
  have e: "setBounds_edges b x i (t\<lparr>gridSize := g\<rparr>) =
      map_option (\<lambda>t. t\<lparr>gridSize := g\<rparr>) (setBounds_edges b x i t)" for i t
    by (simp add: setBounds_edges_def G_simps)
  have c: "setBounds_corners x (t\<lparr>gridSize := g\<rparr>) =
      map_option (\<lambda>t. t\<lparr>gridSize := g\<rparr>) (setBounds_corners x t)" for t
    by (simp add: setBounds_corners_def G_simps)
  show ?thesis by (simp add: setBounds_def forM_G [of "setBounds_edges b x", OF e] c G_simps)
qed

lemma linearSolve_G:
  "linearSolve b x x0 a c (s\<lparr>gridSize := g\<rparr>) =
     map_option (\<lambda>t. t\<lparr>gridSize := g\<rparr>) (linearSolve b x x0 a c s)"
proof -
  have e: "linearSolve_cell x x0 a c j i (t\<lparr>gridSize := g\<rparr>) =
      map_option (\<lambda>t. t\<lparr>gridSize := g\<rparr>) (linearSolve_cell x x0 a c j i t)" for i j t
    by (simp add: linearSolve_cell_def G_simps)
  have w: "linearSolve_sweep b x x0 a c (t\<lparr>gridSize := g\<rparr>) =
      map_option (\<lambda>t. t\<lparr>gridSize := g\<rparr>) (linearSolve_sweep b x x0 a c t)" for t
    by (simp add: linearSolve_sweep_def forM_G e setBounds_G G_simps)
  show ?thesis by (simp add: linearSolve_def forM_G w)
qed

lemma diffuse_G:
  "diffuse b x x0 diff dt (s\<lparr>gridSize := g\<rparr>) =
     map_option (\<lambda>t. t\<lparr>gridSize := g\<rparr>) (diffuse b x x0 diff dt s)"
  by (simp add: diffuse_def linearSolve_G Let_def)

lemma advect_G:
  "advect b d d0 velocX velocY dt (s\<lparr>gridSize := g\<rparr>) =
     map_option (\<lambda>t. t\<lparr>gridSize := g\<rparr>) (advect b d d0 velocX velocY dt s)"
proof -
  have e: "advect_cell d d0 velocX velocY dt0 j i (t\<lparr>gridSize := g\<rparr>) =
      map_option (\<lambda>t. t\<lparr>gridSize := g\<rparr>) (advect_cell d d0 velocX velocY dt0 j i t)" for i j t dt0
    by (simp add: advect_cell_def G_simps)
  show ?thesis by (simp add: advect_def forM_G e setBounds_G G_simps)
qed

lemma project_G:
  "project velocX velocY p dv (s\<lparr>gridSize := g\<rparr>) =
     map_option (\<lambda>t. t\<lparr>gridSize := g\<rparr>) (project velocX velocY p dv s)"
proof -
  have e: "project_div velocX velocY p dv j i (t\<lparr>gridSize := g\<rparr>) =
      map_option (\<lambda>t. t\<lparr>gridSize := g\<rparr>) (project_div velocX velocY p dv j i t)" for i j t
    by (simp add: project_div_def G_simps)
  have f: "project_grad velocX velocY p j i (t\<lparr>gridSize := g\<rparr>) =
      map_option (\<lambda>t. t\<lparr>gridSize := g\<rparr>) (project_grad velocX velocY p j i t)" for i j t
    by (simp add: project_grad_def G_simps)
  show ?thesis
    by (simp add: project_def forM_G e f setBounds_G linearSolve_G G_simps)
qed

lemma applyVorticityConfinement_G:
  "applyVorticityConfinement velocX velocY dt (s\<lparr>gridSize := g\<rparr>) =
     map_option (\<lambda>t. t\<lparr>gridSize := g\<rparr>) (applyVorticityConfinement velocX velocY dt s)"
proof -
  have e: "vorticity_curl velocX velocY j i (t\<lparr>gridSize := g\<rparr>) =
      map_option (\<lambda>t. t\<lparr>gridSize := g\<rparr>) (vorticity_curl velocX velocY j i t)" for i j t
    by (simp add: vorticity_curl_def G_simps)
  have f: "vorticity_force velocX velocY eps dt j i (t\<lparr>gridSize := g\<rparr>) =
      map_option (\<lambda>t. t\<lparr>gridSize := g\<rparr>) (vorticity_force velocX velocY eps dt j i t)"
    for i j t eps
    by (simp add: vorticity_force_def G_simps)
  show ?thesis
    by (simp add: applyVorticityConfinement_def forM_G e f setBounds_G G_simps)
qed

lemma applyDissipation_G:
  "applyDissipation (s\<lparr>gridSize := g\<rparr>) =
     map_option (\<lambda>t. t\<lparr>gridSize := g\<rparr>) (applyDissipation s)"
  by (simp add: applyDissipation_eq)

lemma step_G:
  "step dt (s\<lparr>gridSize := g\<rparr>) = map_option (\<lambda>t. t\<lparr>gridSize := g\<rparr>) (step dt s)"
proof -
  show ?thesis
    unfolding step_def Let_def
    by (simp add: diffuse_G project_G advect_G applyVorticityConfinement_G applyDissipation_G
        bind_map_G map_G_bind)
qed

lemma applyVorticityConfinement_guard:
  "applyVorticityConfinement velocX velocY dt s =
     (if curlStrength (config s) \<le> 0 then Some s
      else confine velocX velocY (curlStrength (config s)) dt s)"
  by (simp add: applyVorticityConfinement_def confine_def Let_def)

subsection \<open>A stirred state, evaluated phase by phase\<close>













subsection \<open>The boundary rule at the end of an operation\<close>

lemma mirrored_frame:
  assumes "frame X t u" "x \<notin> X" "mirrored b x t"
  shows "mirrored b x u"
proof -
  have "size_f u = size_f t" using assms(1) by (simp add: frame_def)
  moreover have "cell x i j u = cell x i j t" for i j
    using frame_cell [OF assms(1,2)] .
  ultimately show ?thesis using assms(3) by (simp add: mirrored_def Let_def)
qed

lemma setBounds_velocity_pair:
  assumes "grid_ok t" "1 \<le> size_f t" "velocX \<noteq> velocY"
  shows "\<exists>u w. setBounds 1 velocX t = Some u \<and> setBounds 2 velocY u = Some w \<and>
     frame {velocX, velocY} t w \<and> mirrored 1 velocX w \<and> mirrored 2 velocY w"
proof -
  from setBounds_post [OF assms(1,2), of 1 velocX] obtain u where
    u: "setBounds 1 velocX t = Some u" "frame {velocX} t u" "mirrored 1 velocX u" by blast
  from u(2) have "grid_ok u" "1 \<le> size_f u" using assms(2) by (simp_all add: frame_def)
  from setBounds_post [OF this, of 2 velocY] obtain w where
    w: "setBounds 2 velocY u = Some w" "frame {velocY} u w" "mirrored 2 velocY w" by blast
  have "mirrored 1 velocX w" using mirrored_frame [OF w(2) _ u(3)] assms(3) by simp
  moreover have "frame {velocX, velocY} t w"
    using frame_trans [OF u(2) w(2), of "{velocX, velocY}"] by simp
  ultimately show ?thesis using u(1) w(1) w(3) by blast
qed

lemma project_mirrored:
  assumes "grid_ok s" "1 \<le> size_f s" "velocX \<noteq> velocY"
  shows "\<exists>s'. project velocX velocY p dv s = Some s' \<and>
     mirrored 1 velocX s' \<and> mirrored 2 velocY s'"
proof -
  let ?X = "{velocX, velocY, p, dv}"
  let ?N = "size_f s"
  have ok: "grid_ok t \<and> 1 \<le> size_f t \<and> size_f t = ?N" if "frame ?X s t" for t
    using that assms by (simp add: frame_def)
  obtain t1 where t1: "forM [1..?N] (\<lambda>j. forM [1..?N] (project_div velocX velocY p dv j)) s = Some t1"
    and f1: "frame ?X s t1"
    using forM_grid_frame [of s "project_div velocX velocY p dv" ?X] project_div_frame assms
    by force
  obtain t2 where t2: "setBounds 0 dv t1 = Some t2" and f2: "frame ?X s t2"
    using setBounds_frame [of t1 0 dv] ok [OF f1] frame_trans [OF f1, of "{dv}" _ ?X] by auto
  obtain t3 where t3: "setBounds 0 p t2 = Some t3" and f3: "frame ?X s t3"
    using setBounds_frame [of t2 0 p] ok [OF f2] frame_trans [OF f2, of "{p}" _ ?X] by auto
  obtain t4 where t4: "linearSolve 0 p dv 1 4 t3 = Some t4" and f4: "frame ?X s t4"
    using linearSolve_frame [of t3 0 p dv 1 4] ok [OF f3] frame_trans [OF f3, of "{p}" _ ?X] by auto
  obtain t5 where t5: "forM [1..?N] (\<lambda>j. forM [1..?N] (project_grad velocX velocY p j)) t4 = Some t5"
    and f5: "frame ?X s t5"
    using forM_grid_frame [of t4 "project_grad velocX velocY p" ?X]
      project_grad_frame [where dv = dv] ok [OF f4] frame_same [OF f4]
    by force
  from setBounds_velocity_pair [of t5 velocX velocY] ok [OF f5] assms(3) obtain t6 t7 where
    t6: "setBounds 1 velocX t5 = Some t6" and t7: "setBounds 2 velocY t6 = Some t7"
    and m: "mirrored 1 velocX t7" "mirrored 2 velocY t7" by blast
  have n: "size_f t1 = ?N" "size_f t2 = ?N" "size_f t3 = ?N" "size_f t4 = ?N"
    using ok f1 f2 f3 f4 by simp_all
  have "project velocX velocY p dv s = Some t7"
    using t1 t2 t3 t4 t5 t6 t7 by (simp add: project_def Let_def)
  with m show ?thesis by blast
qed

lemma applyVorticityConfinement_mirrored:
  assumes "grid_ok s" "1 \<le> size_f s" "velocX \<noteq> velocY" "0 < curlStrength (config s)"
  shows "\<exists>s'. applyVorticityConfinement velocX velocY dt s = Some s' \<and>
     mirrored 1 velocX s' \<and> mirrored 2 velocY s'"
proof -
  let ?X = "{Curl, velocX, velocY}"
  let ?N = "size_f s"
  let ?e = "curlStrength (config s)"
  have ok: "grid_ok t \<and> 1 \<le> size_f t \<and> size_f t = ?N" if "frame ?X s t" for t
    using that assms by (simp add: frame_def)
  obtain t1 where t1: "forM [1..?N] (\<lambda>j. forM [1..?N] (vorticity_curl velocX velocY j)) s = Some t1"
    and f1: "frame ?X s t1"
    using forM_grid_frame [of s "vorticity_curl velocX velocY" ?X] vorticity_curl_frame assms
    by force
  obtain t2 where t2: "forM [1..?N] (\<lambda>j. forM [1..?N] (vorticity_force velocX velocY ?e dt j)) t1 = Some t2"
    and f2: "frame ?X s t2"
    using forM_grid_frame [of t1 "vorticity_force velocX velocY ?e dt" ?X]
      vorticity_force_frame ok [OF f1] frame_same [OF f1]
    by force
  from setBounds_velocity_pair [of t2 velocX velocY] ok [OF f2] assms(3) obtain t3 t4 where
    t3: "setBounds 1 velocX t2 = Some t3" and t4: "setBounds 2 velocY t3 = Some t4"
    and m: "mirrored 1 velocX t4" "mirrored 2 velocY t4" by blast
  have "applyVorticityConfinement velocX velocY dt s = Some t4"
    using assms(4) t1 t2 t3 t4 by (simp add: applyVorticityConfinement_def Let_def)
  with m show ?thesis by blast
qed

lemma linearSolve_mirrored:
  assumes "grid_ok s" "1 \<le> size_f s" "x \<noteq> x0" "1 \<le> pressureIterations (config s)"
  shows "\<exists>s'. linearSolve b x x0 a c s = Some s' \<and> mirrored b x s'"
proof -
  let ?K = "pressureIterations (config s)"
  let ?I = "\<lambda>(k::int) t. frame {x} s t \<and> (0 \<le> k \<longrightarrow> mirrored b x t)"
  have "\<exists>t'. forM [0..?K - 1] (\<lambda>k. linearSolve_sweep b x x0 a c) s = Some t' \<and> ?I (?K - 1) t'"
  proof (rule forM_upto_inv [where I = ?I])
    show "?I (0 - 1) s" using assms(1) by (simp add: frame_refl)
    show "0 \<le> ?K - 1 + 1" using assms(4) by simp
    fix k t assume "0 \<le> k" "?I (k - 1) t"
    then have f: "frame {x} s t" by simp
    then have "grid_ok t" "1 \<le> size_f t" using assms(2) by (simp_all add: frame_def)
    from linearSolve_sweep_post [OF assms(3) this, of b a c] obtain t' where
      "linearSolve_sweep b x x0 a c t = Some t'" "frame {x} t t'" "mirrored b x t'" by blast
    then show "\<exists>t'. linearSolve_sweep b x x0 a c t = Some t' \<and> ?I k t'"
      using frame_same [OF f] by blast
  qed
  then show ?thesis using assms(4) by (auto simp add: linearSolve_def)
qed

section \<open>The specification's claims\<close>

text \<open>
  Claim C1. On a state whose buffers have length \<open>(N+2)\<^sup>2\<close>, with \<open>N \<ge> 1\<close>, \<open>step dt\<close>
  is the run, in order, of the list \<open>step_phases\<close>: the eight phases of the
  specification, with the viscosity, the confinement strength, the dye diffusion rate and
  the dissipation factor of the configuration in force when the step starts. The step
  returns, and leaves the configuration, the size and the buffer lengths as they were. The
  confinement phase is the identity exactly under its guard \<open>curlStrength \<le> 0\<close>
  (otherwise it is \<open>confine\<close>), and there is no other test of the configuration in the
  list. The last phase multiplies every dye cell by the dissipation factor. The step is a
  function of \<open>dt\<close> and the state; of the state it uses the configuration, the size and
  the seven buffers: the remaining field \<open>gridSize\<close> is neither read nor written.
\<close>

theorem step_eight_phases:
  assumes "grid_ok s" "1 \<le> size_f s"
  shows "step dt s = forM (step_phases dt (config s)) (\<lambda>phase. phase) s \<and>
     (\<exists>s'. step dt s = Some s' \<and> config s' = config s \<and> size_f s' = size_f s \<and>
        gridSize s' = gridSize s \<and> grid_ok s') \<and>
     (curlStrength (config s) \<le> 0 \<longrightarrow>
        (\<forall>t. applyVorticityConfinement VelocityX VelocityY dt (t\<lparr>config := config s\<rparr>) =
           Some (t\<lparr>config := config s\<rparr>))) \<and>
     (\<forall>g. step dt (s\<lparr>gridSize := g\<rparr>) = map_option (\<lambda>t. t\<lparr>gridSize := g\<rparr>) (step dt s))"
proof -
  from step_chain [OF assms, of dt] obtain t1 t2 t3 t4 t5 t6 t7 t8 t9 t10 where
    c: "diffuse 1 VelocityXPrev VelocityX (viscosity (config s)) dt s = Some t1"
      "diffuse 2 VelocityYPrev VelocityY (viscosity (config s)) dt t1 = Some t2"
      "project VelocityXPrev VelocityYPrev VelocityX VelocityY t2 = Some t3"
      "advect 1 VelocityX VelocityXPrev VelocityXPrev VelocityYPrev dt t3 = Some t4"
      "advect 2 VelocityY VelocityYPrev VelocityXPrev VelocityYPrev dt t4 = Some t5"
      "applyVorticityConfinement VelocityX VelocityY dt t5 = Some t6"
      "project VelocityX VelocityY VelocityXPrev VelocityYPrev t6 = Some t7"
      "diffuse 0 DensityPrev Density (diffusion (config s)) dt t7 = Some t8"
      "advect 0 Density DensityPrev VelocityX VelocityY dt t8 = Some t9"
      "applyDissipation t9 = Some t10"
    and s: "step dt s = Some t10"
    and f: "frame UNIV s t5" "frame UNIV s t9" "frame UNIV s t10"
    by blast
  have c5: "config t5 = config s" and c9: "config t9 = config s"
    using f by (simp_all add: frame_def)
  have v: "(if curlStrength (config s) \<le> 0 then Some
            else confine VelocityX VelocityY (curlStrength (config s)) dt) t5 = Some t6"
  proof -
    have eq: "applyVorticityConfinement VelocityX VelocityY dt t5 =
        (if curlStrength (config s) \<le> 0 then Some
         else confine VelocityX VelocityY (curlStrength (config s)) dt) t5"
      unfolding applyVorticityConfinement_guard c5 by simp
    show ?thesis unfolding eq [symmetric] by (rule c(6))
  qed
  have d: "Some (t9\<lparr>density := map (\<lambda>v. v * dissipation (config s)) (density t9)\<rparr>) = Some t10"
    using c(10) by (simp add: applyDissipation_eq c9)
  have "forM (step_phases dt (config s)) (\<lambda>phase. phase) s = Some t10"
    unfolding step_phases_def forM.simps
    by (simp only: c(1-5) c(7-9) v d bind.bind_lunit)
  with s have 1: "step dt s = forM (step_phases dt (config s)) (\<lambda>phase. phase) s" by simp
  have 2: "\<exists>s'. step dt s = Some s' \<and> config s' = config s \<and> size_f s' = size_f s \<and>
        gridSize s' = gridSize s \<and> grid_ok s'"
    using s f(3) by (simp add: frame_def)
  have 3: "curlStrength (config s) \<le> 0 \<longrightarrow>
        (\<forall>t. applyVorticityConfinement VelocityX VelocityY dt (t\<lparr>config := config s\<rparr>) =
           Some (t\<lparr>config := config s\<rparr>))"
    by (simp add: applyVorticityConfinement_guard)
  show ?thesis using 1 2 3 step_G by blast
qed

theorem step_eight_phases_witness:
  "grid_ok dye_example \<and> 1 \<le> size_f dye_example \<and> curlStrength (config dye_example) \<le> 0 \<and>
   step (1 / 60) dye_example =
     forM (step_phases (1 / 60) example_cfg) (\<lambda>phase. phase) dye_example \<and>
   (\<exists>s'. step (1 / 60) dye_example = Some s' \<and> config s' = example_cfg \<and> size_f s' = 2) \<and>
   applyVorticityConfinement VelocityX VelocityY (1 / 60) dye_example = Some dye_example \<and>
   step (1 / 60) (dye_example\<lparr>gridSize := 0\<rparr>) =
     map_option (\<lambda>t. t\<lparr>gridSize := 0\<rparr>) (step (1 / 60) dye_example)"
proof -
  have g: "grid_ok dye_example"
    by (simp add: dye_example_def example_cfg_def constructor_def grid_ok_def newFloat32Array_def Let_def)
  have n: "size_f dye_example = 2"
    by (simp add: dye_example_def example_cfg_def constructor_def Let_def)
  have c: "config dye_example = example_cfg"
    by (simp add: dye_example_def constructor_def Let_def)
  have e: "curlStrength example_cfg \<le> 0" by (simp add: example_cfg_def)
  have n1: "1 \<le> size_f dye_example" using n by simp
  note T = step_eight_phases [OF g n1, of "1 / 60", unfolded c n]
  have "applyVorticityConfinement VelocityX VelocityY (1 / 60) (dye_example\<lparr>config := example_cfg\<rparr>)
      = Some (dye_example\<lparr>config := example_cfg\<rparr>)"
    using T e by blast
  moreover have "dye_example\<lparr>config := example_cfg\<rparr> = dye_example"
    using c by (metis fluid.surjective fluid.update_convs(1))
  ultimately have 3: "applyVorticityConfinement VelocityX VelocityY (1 / 60) dye_example =
      Some dye_example" by simp
  have 1: "step (1 / 60) dye_example =
      forM (step_phases (1 / 60) example_cfg) (\<lambda>phase. phase) dye_example"
    using T by (rule conjunct1)
  have 2: "\<exists>s'. step (1 / 60) dye_example = Some s' \<and> config s' = example_cfg \<and> size_f s' = 2"
    using T [THEN conjunct2, THEN conjunct1] by blast
  have 4: "step (1 / 60) (dye_example\<lparr>gridSize := 0\<rparr>) =
      map_option (\<lambda>t. t\<lparr>gridSize := 0\<rparr>) (step (1 / 60) dye_example)"
    using T [THEN conjunct2, THEN conjunct2, THEN conjunct2] by (rule spec)
  have e': "curlStrength (config dye_example) \<le> 0" using e c by simp
  from g n1 e' 1 2 3 4 show ?thesis by (intro conjI)
qed

text \<open>
  Claim C2, as amended. The guards of the impulse routines test the mapped cell, not the
  normalized coordinates. \<open>addVelocityImpulse\<close> returns the state unchanged when the
  mapped cell \<open>(\<lfloor>x * N\<rfloor>, \<lfloor>y * N\<rfloor>)\<close> lies outside \<open>[1, N]\<^sup>2\<close>, which for \<open>N \<ge> 1\<close> covers
  every negative coordinate and every coordinate from \<open>1 + 1/N\<close> on; \<open>addImpulse\<close>
  returns the state unchanged when the whole brush square around the mapped centre misses
  the interior grid. Neither reports an error. As stated for coordinates outside
  \<open>[0, 1]\<^sup>2\<close> the claim fails: on the default preset, a brush centred at \<open>x = -0.01\<close> still
  paints column 1 and a velocity impulse at \<open>x = 1.001\<close> still lands in column 128.
\<close>

theorem impulse_off_grid_noop:
  "(\<not> (1 \<le> \<lfloor>x * real_of_int (size_f s)\<rfloor> \<and> \<lfloor>x * real_of_int (size_f s)\<rfloor> \<le> size_f s \<and>
        1 \<le> \<lfloor>y * real_of_int (size_f s)\<rfloor> \<and> \<lfloor>y * real_of_int (size_f s)\<rfloor> \<le> size_f s) \<longrightarrow>
      addVelocityImpulse x y vx vy forceStrength s = Some s) \<and>
   (1 \<le> size_f s \<and> (x < 0 \<or> y < 0 \<or> 1 + 1 / real_of_int (size_f s) \<le> x \<or>
        1 + 1 / real_of_int (size_f s) \<le> y) \<longrightarrow>
      addVelocityImpulse x y vx vy forceStrength s = Some s) \<and>
   ((let r = max \<lfloor>radius * real_of_int (size_f s)\<rfloor> 1;
         centerX = \<lfloor>x * real_of_int (size_f s)\<rfloor>;
         centerY = \<lfloor>y * real_of_int (size_f s)\<rfloor>
     in centerX + r < 1 \<or> size_f s < centerX - r \<or> centerY + r < 1 \<or> size_f s < centerY - r) \<longrightarrow>
      addImpulse x y radius strength audioFactor s = Some s)"
proof (intro conjI impI)
  assume "\<not> (1 \<le> \<lfloor>x * real_of_int (size_f s)\<rfloor> \<and> \<lfloor>x * real_of_int (size_f s)\<rfloor> \<le> size_f s \<and>
        1 \<le> \<lfloor>y * real_of_int (size_f s)\<rfloor> \<and> \<lfloor>y * real_of_int (size_f s)\<rfloor> \<le> size_f s)"
  then show "addVelocityImpulse x y vx vy forceStrength s = Some s"
    by (intro addVelocityImpulse_outside) (simp add: interior_def)
next
  let ?N = "real_of_int (size_f s)"
  assume a: "1 \<le> size_f s \<and> (x < 0 \<or> y < 0 \<or> 1 + 1 / ?N \<le> x \<or> 1 + 1 / ?N \<le> y)"
  then have N: "0 < ?N" by simp
  have lo: "\<lfloor>z * ?N\<rfloor> < 1" if "z < 0" for z
  proof -
    have "z * ?N < 0" using that N by (simp add: mult_neg_pos)
    then show ?thesis by (simp add: floor_less_iff)
  qed
  have hi: "size_f s < \<lfloor>z * ?N\<rfloor>" if "1 + 1 / ?N \<le> z" for z
  proof -
    have "(1 + 1 / ?N) * ?N \<le> z * ?N" using that N by (intro mult_right_mono) simp_all
    moreover have "(1 + 1 / ?N) * ?N = ?N + 1" using N by (simp add: field_simps)
    ultimately have "real_of_int (size_f s + 1) \<le> z * ?N" by simp
    then have "size_f s + 1 \<le> \<lfloor>z * ?N\<rfloor>" by (simp only: le_floor_iff)
    then show ?thesis by simp
  qed
  have "\<not> interior s \<lfloor>x * ?N\<rfloor> \<lfloor>y * ?N\<rfloor>"
    using a lo [of x] lo [of y] hi [of x] hi [of y] by (auto simp add: interior_def)
  then show "addVelocityImpulse x y vx vy forceStrength s = Some s"
    by (rule addVelocityImpulse_outside)
next
  assume "let r = max \<lfloor>radius * real_of_int (size_f s)\<rfloor> 1;
         centerX = \<lfloor>x * real_of_int (size_f s)\<rfloor>;
         centerY = \<lfloor>y * real_of_int (size_f s)\<rfloor>
     in centerX + r < 1 \<or> size_f s < centerX - r \<or> centerY + r < 1 \<or> size_f s < centerY - r"
  then show "addImpulse x y radius strength audioFactor s = Some s"
    by (intro addImpulse_outside) (simp add: Let_def)
qed

theorem impulse_outside_unit_square_counterexample:
  "(- 1 / 100 :: real) < 0 \<and> (1001 / 1000 :: real) > 1 \<and>
   cell Density 1 64 (constructor defaultPreset_simulation) = 0 \<and>
   map_option (cell Density 1 64)
     (addImpulse (- 1 / 100) (1 / 2) (4 / 100) 25 0 (constructor defaultPreset_simulation)) =
     Some (1 / 10) \<and>
   cell VelocityX 128 64 (constructor defaultPreset_simulation) = 0 \<and>
   map_option (cell VelocityX 128 64)
     (addVelocityImpulse (1001 / 1000) (1 / 2) 1000 0 250 (constructor defaultPreset_simulation)) =
     Some 250"
proof -
  let ?s = "constructor defaultPreset_simulation"
  have n: "size_f ?s = 128" "resolution defaultPreset_simulation = 128"
    by (simp_all add: defaultPreset_simulation_def)
  have g: "grid_ok ?s" by (rule grid_ok_constructor)
  have z: "cell Density 1 64 ?s = 0" "cell VelocityX 128 64 ?s = 0" "cell VelocityY 128 64 ?s = 0"
    by (simp_all add: cell_constructor inb_def defaultPreset_simulation_def)
  from addImpulse_post [OF g, of "- 1 / 100" "1 / 2" "4 / 100" 25 0] obtain s' where
    s': "addImpulse (- 1 / 100) (1 / 2) (4 / 100) 25 0 ?s = Some s'"
    and d: "impulse_done ?s 5 (- 2) 64 25 5 5 s'"
    by (auto simp add: n)
  have "cell Density 1 64 s' = cell Density 1 64 ?s + impulse_added 5 (- 2) 64 25 1 64"
    using d by (simp add: impulse_done_def impulse_partial_end inb_def interior_def n)
  also have "\<dots> = 1 / 10" by (simp add: z impulse_added_def Let_def sqrt9)
  finally have 1: "map_option (cell Density 1 64)
     (addImpulse (- 1 / 100) (1 / 2) (4 / 100) 25 0 ?s) = Some (1 / 10)"
    using s' by simp
  have i: "interior ?s \<lfloor>1001 / 1000 * real_of_int (size_f ?s)\<rfloor> \<lfloor>1 / 2 * real_of_int (size_f ?s)\<rfloor>"
    by (simp add: n interior_def)
  have f: "\<lfloor>1001 / 1000 * real_of_int (size_f ?s)\<rfloor> = 128" "\<lfloor>1 / 2 * real_of_int (size_f ?s)\<rfloor> = 64"
    by (simp_all add: n)
  have b: "inb ?s 128" "inb ?s 64" by (simp_all add: inb_def n)
  have 2: "map_option (cell VelocityX 128 64)
     (addVelocityImpulse (1001 / 1000) (1 / 2) 1000 0 250 ?s) = Some 250"
    unfolding addVelocityImpulse_inside [OF g i] f
    using cell_upd_same [OF g b b, of VelocityX] by (simp add: z)
  show ?thesis using z 1 2 by simp
qed

theorem impulse_off_grid_noop_witness:
  "\<not> (1 \<le> \<lfloor>- 1 / 100 * real_of_int (size_f (constructor defaultPreset_simulation))\<rfloor>) \<and>
   addVelocityImpulse (- 1 / 100) (1 / 2) 1000 0 250 (constructor defaultPreset_simulation) =
     Some (constructor defaultPreset_simulation) \<and>
   addVelocityImpulse (101 / 100) (1 / 2) 1000 0 250 (constructor defaultPreset_simulation) =
     Some (constructor defaultPreset_simulation) \<and>
   \<lfloor>- 1 / 10 * real_of_int (size_f (constructor defaultPreset_simulation))\<rfloor> +
     max \<lfloor>4 / 100 * real_of_int (size_f (constructor defaultPreset_simulation))\<rfloor> 1 < 1 \<and>
   addImpulse (- 1 / 10) (1 / 2) (4 / 100) 25 0 (constructor defaultPreset_simulation) =
     Some (constructor defaultPreset_simulation)"
proof -
  let ?s = "constructor defaultPreset_simulation"
  have n: "size_f ?s = 128" "resolution defaultPreset_simulation = 128"
    by (simp_all add: defaultPreset_simulation_def)
  note T = impulse_off_grid_noop [of _ ?s, unfolded n]
  have 1: "addVelocityImpulse (- 1 / 100) (1 / 2) 1000 0 250 ?s = Some ?s"
    using T [of "- 1 / 100" "1 / 2" 1000 0 250] by simp
  have 2: "addVelocityImpulse (101 / 100) (1 / 2) 1000 0 250 ?s = Some ?s"
    using T [of "101 / 100" "1 / 2" 1000 0 250] by simp
  have 3: "addImpulse (- 1 / 10) (1 / 2) (4 / 100) 25 0 ?s = Some ?s"
    using T [of "- 1 / 10" "1 / 2" _ _ _ "4 / 100" 25 0] by (simp add: Let_def)
  show ?thesis using 1 2 3 by (simp add: n)
qed

text \<open>
  Claim C3. On a state whose buffers have length \<open>(N+2)\<^sup>2\<close>, with \<open>N \<ge> 1\<close>,
  \<open>setBounds b x\<close> returns a state in which, for every interior \<open>j\<close>, the left and right
  ghost cells of row \<open>j\<close> hold the adjacent interior value, negated when \<open>b = 1\<close> and
  copied otherwise (so copied for \<open>b = 0\<close>), the bottom and top ghost cells of column
  \<open>j\<close> hold the adjacent interior value, negated when \<open>b = 2\<close> and copied otherwise, and
  each corner holds the mean of its two neighbours on the ghost ring; the interior is
  untouched. The same rule (\<open>mirrored\<close>) holds at the end of every operation that applies
  it to a buffer: an advection, a relaxation sweep, a diffusion of at least one sweep, and,
  for the two velocity components with the tags 1 and 2, a projection and a vorticity
  confinement that is not skipped.
\<close>

theorem setBounds_boundary_rule:
  assumes "grid_ok s" "1 \<le> size_f s"
  shows "(\<exists>s'. setBounds b x s = Some s' \<and>
     (\<forall>j. 1 \<le> j \<and> j \<le> size_f s \<longrightarrow>
        cell x 0 j s' = (if b = 1 then - cell x 1 j s' else cell x 1 j s') \<and>
        cell x (size_f s + 1) j s' =
          (if b = 1 then - cell x (size_f s) j s' else cell x (size_f s) j s') \<and>
        cell x j 0 s' = (if b = 2 then - cell x j 1 s' else cell x j 1 s') \<and>
        cell x j (size_f s + 1) s' =
          (if b = 2 then - cell x j (size_f s) s' else cell x j (size_f s) s')) \<and>
     cell x 0 0 s' = (cell x 1 0 s' + cell x 0 1 s') / 2 \<and>
     cell x 0 (size_f s + 1) s' = (cell x 1 (size_f s + 1) s' + cell x 0 (size_f s) s') / 2 \<and>
     cell x (size_f s + 1) 0 s' = (cell x (size_f s) 0 s' + cell x (size_f s + 1) 1 s') / 2 \<and>
     cell x (size_f s + 1) (size_f s + 1) s' =
       (cell x (size_f s) (size_f s + 1) s' + cell x (size_f s + 1) (size_f s) s') / 2 \<and>
     (\<forall>i j. 1 \<le> i \<and> i \<le> size_f s \<and> 1 \<le> j \<and> j \<le> size_f s \<longrightarrow>
        cell x i j s' = cell x i j s)) \<and>
     (\<forall>t. advect b x d0 velocX velocY dt s = Some t \<longrightarrow> mirrored b x t) \<and>
     (\<forall>t. x \<noteq> x0 \<and> linearSolve_sweep b x x0 a c s = Some t \<longrightarrow> mirrored b x t) \<and>
     (\<forall>t. x \<noteq> x0 \<and> 1 \<le> pressureIterations (config s) \<and>
        diffuse b x x0 rate dt s = Some t \<longrightarrow> mirrored b x t) \<and>
     (\<forall>t. x \<noteq> y \<and> project x y p dv s = Some t \<longrightarrow>
        mirrored 1 x t \<and> mirrored 2 y t) \<and>
     (\<forall>t. x \<noteq> y \<and> 0 < curlStrength (config s) \<and>
        applyVorticityConfinement x y dt s = Some t \<longrightarrow> mirrored 1 x t \<and> mirrored 2 y t)"
proof -
  from setBounds_post [OF assms, of b x] obtain s' where
    s': "setBounds b x s = Some s'" and f: "frame {x} s s'" and m: "mirrored b x s'"
    and i: "\<forall>i j. interior s i j \<longrightarrow> cell x i j s' = cell x i j s" by blast
  from f have n: "size_f s' = size_f s" by (simp add: frame_def)
  have adv: "mirrored b x t" if "advect b x d0 velocX velocY dt s = Some t" for t
  proof -
    let ?f = "advect_cell x d0 velocX velocY (dt * real_of_int (size_f s))"
    have "\<exists>u. forM [1..size_f s] (\<lambda>j. forM [1..size_f s] (?f j)) s = Some u \<and> frame {x} s u"
    proof (rule forM_grid_frame)
      show "grid_ok s" "0 \<le> size_f s" using assms by simp_all
      fix i j t assume "grid_ok t" "interior t i j"
      then show "\<exists>t'. ?f j i t = Some t' \<and> frame {x} t t'" by (rule advect_cell_frame)
    qed
    then obtain u where u: "forM [1..size_f s] (\<lambda>j. forM [1..size_f s] (?f j)) s = Some u"
      and fu: "frame {x} s u" by blast
    from fu have "grid_ok u" "1 \<le> size_f u" using assms by (simp_all add: frame_def)
    from setBounds_post [OF this, of b x] obtain t' where
      "setBounds b x u = Some t'" "mirrored b x t'" by blast
    with u that show ?thesis by (simp add: advect_def Let_def)
  qed
  have sw: "mirrored b x t" if "x \<noteq> x0" "linearSolve_sweep b x x0 a c s = Some t" for t
    using linearSolve_sweep_post [OF that(1) assms, of b a c] that(2) by auto
  have "\<exists>s'. setBounds b x s = Some s' \<and>
     (\<forall>j. 1 \<le> j \<and> j \<le> size_f s \<longrightarrow>
        cell x 0 j s' = (if b = 1 then - cell x 1 j s' else cell x 1 j s') \<and>
        cell x (size_f s + 1) j s' =
          (if b = 1 then - cell x (size_f s) j s' else cell x (size_f s) j s') \<and>
        cell x j 0 s' = (if b = 2 then - cell x j 1 s' else cell x j 1 s') \<and>
        cell x j (size_f s + 1) s' =
          (if b = 2 then - cell x j (size_f s) s' else cell x j (size_f s) s')) \<and>
     cell x 0 0 s' = (cell x 1 0 s' + cell x 0 1 s') / 2 \<and>
     cell x 0 (size_f s + 1) s' = (cell x 1 (size_f s + 1) s' + cell x 0 (size_f s) s') / 2 \<and>
     cell x (size_f s + 1) 0 s' = (cell x (size_f s) 0 s' + cell x (size_f s + 1) 1 s') / 2 \<and>
     cell x (size_f s + 1) (size_f s + 1) s' =
       (cell x (size_f s) (size_f s + 1) s' + cell x (size_f s + 1) (size_f s) s') / 2 \<and>
     (\<forall>i j. 1 \<le> i \<and> i \<le> size_f s \<and> 1 \<le> j \<and> j \<le> size_f s \<longrightarrow>
        cell x i j s' = cell x i j s)"
    using s' m i n by (intro exI [of _ s']) (simp add: mirrored_def Let_def interior_def)
  moreover have "mirrored b x t"
    if "x \<noteq> x0" "1 \<le> pressureIterations (config s)" "diffuse b x x0 rate dt s = Some t" for t
    using linearSolve_mirrored [OF assms that(1,2), of b
        "dt * rate * real_of_int (size_f s) * real_of_int (size_f s)"
        "1 + 4 * (dt * rate * real_of_int (size_f s) * real_of_int (size_f s))"] that(3)
    by (auto simp add: diffuse_def Let_def)
  moreover have "mirrored 1 x t \<and> mirrored 2 y t"
    if "x \<noteq> y" "project x y p dv s = Some t" for t
    using project_mirrored [OF assms that(1), of p dv] that(2) by auto
  moreover have "mirrored 1 x t \<and> mirrored 2 y t"
    if "x \<noteq> y" "0 < curlStrength (config s)" "applyVorticityConfinement x y dt s = Some t"
    for t
    using applyVorticityConfinement_mirrored [OF assms that(1,2), of dt] that(3) by auto
  ultimately show ?thesis using adv sw by blast
qed

theorem setBounds_boundary_rule_witness:
  "grid_ok dye_example \<and> 1 \<le> size_f dye_example \<and>
   (\<exists>s'. setBounds 1 Density dye_example = Some s' \<and>
      cell Density 0 1 s' = 3 \<and> cell Density 3 1 s' = - 1 / 2 \<and>
      cell Density 1 0 s' = - 3 \<and> cell Density 0 0 s' = 0 \<and> cell Density 1 1 s' = - 3)"
proof -
  have g: "grid_ok dye_example"
    by (simp add: dye_example_def example_cfg_def constructor_def grid_ok_def newFloat32Array_def Let_def)
  have n: "size_f dye_example = 2"
    by (simp add: dye_example_def example_cfg_def constructor_def Let_def)
  have n1: "1 \<le> size_f dye_example" using n by simp
  have v: "cell Density 1 1 dye_example = - 3" "cell Density 2 1 dye_example = 1 / 2"
    by (simp_all add: cell_def IX_def dye_example_def example_cfg_def constructor_def Let_def)
  from setBounds_boundary_rule [OF g n1, of 1 Density, THEN conjunct1] obtain s' where
    s': "setBounds 1 Density dye_example = Some s'"
    and e: "\<And>j. 1 \<le> j \<Longrightarrow> j \<le> 2 \<Longrightarrow>
        cell Density 0 j s' = - cell Density 1 j s' \<and>
        cell Density 3 j s' = - cell Density 2 j s' \<and>
        cell Density j 0 s' = cell Density j 1 s'"
    and c: "cell Density 0 0 s' = (cell Density 1 0 s' + cell Density 0 1 s') / 2"
    and i: "\<And>i j. 1 \<le> i \<Longrightarrow> i \<le> 2 \<Longrightarrow> 1 \<le> j \<Longrightarrow> j \<le> 2 \<Longrightarrow>
        cell Density i j s' = cell Density i j dye_example"
    unfolding n by auto
  have "cell Density 1 1 s' = - 3" "cell Density 2 1 s' = 1 / 2"
    using i [of 1 1] i [of 2 1] by (simp_all add: v)
  with e [of 1] c have "cell Density 0 1 s' = 3" "cell Density 3 1 s' = - 1 / 2"
    "cell Density 1 0 s' = - 3" "cell Density 0 0 s' = 0" "cell Density 1 1 s' = - 3"
    by simp_all
  with g n1 s' show ?thesis by blast
qed



text \<open>
  Claim C5. \<open>updateConfig\<close> compares the new resolution with the one of the stored
  configuration. When they differ, the new configuration is adopted, the size becomes the
  new resolution, each of the seven buffers is a new array of \<open>(N+2)\<^sup>2\<close> zeros for the new
  \<open>N\<close>, and a following \<open>getDyeField\<close> returns a field whose \<open>size\<close> is the new
  resolution. When they are equal, only the configuration changes: the size and every
  buffer are those of the state before.
\<close>

theorem updateConfig_resize_or_keep:
  "(resolution cfg \<noteq> resolution (config s) \<longrightarrow>
      config (updateConfig cfg s) = cfg \<and>
      size_f (updateConfig cfg s) = resolution cfg \<and>
      gridSize (updateConfig cfg s) = (resolution cfg + 2) * (resolution cfg + 2) \<and>
      (\<forall>x. get x (updateConfig cfg s) =
            replicate (nat ((resolution cfg + 2) * (resolution cfg + 2))) 0) \<and>
      (\<exists>d. getDyeField (updateConfig cfg s) = Some d \<and> size_d d = resolution cfg)) \<and>
   (resolution cfg = resolution (config s) \<longrightarrow>
      updateConfig cfg s = s\<lparr>config := cfg\<rparr> \<and>
      size_f (updateConfig cfg s) = size_f s \<and>
      (\<forall>x. get x (updateConfig cfg s) = get x s))"
proof (intro conjI impI)
  assume ne: "resolution cfg \<noteq> resolution (config s)"
  then have u: "updateConfig cfg s = resize (resolution cfg) (s\<lparr>config := cfg\<rparr>)"
    by (simp add: updateConfig_def)
  show "config (updateConfig cfg s) = cfg" by (simp add: u resize_def Let_def)
  show sz: "size_f (updateConfig cfg s) = resolution cfg" by (simp add: u resize_def Let_def)
  show "gridSize (updateConfig cfg s) = (resolution cfg + 2) * (resolution cfg + 2)"
    by (simp add: u resize_def Let_def)
  show "\<forall>x. get x (updateConfig cfg s) =
            replicate (nat ((resolution cfg + 2) * (resolution cfg + 2))) 0"
    by (simp add: u get_resize)
  show "\<exists>d. getDyeField (updateConfig cfg s) = Some d \<and> size_d d = resolution cfg"
    using getDyeField_size [of "updateConfig cfg s"] sz by (simp add: u grid_ok_resize)
next
  assume eq: "resolution cfg = resolution (config s)"
  then show u: "updateConfig cfg s = s\<lparr>config := cfg\<rparr>" by (simp add: updateConfig_def)
  show "size_f (updateConfig cfg s) = size_f s" by (simp add: u)
  show "\<forall>x. get x (updateConfig cfg s) = get x s"
  proof
    fix x show "get x (updateConfig cfg s) = get x s" by (cases x) (simp_all add: u)
  qed
qed

theorem updateConfig_resize_or_keep_witness:
  "resolution (example_cfg\<lparr>resolution := 1\<rparr>) \<noteq> resolution (config dye_example) \<and>
   get Density (updateConfig (example_cfg\<lparr>resolution := 1\<rparr>) dye_example) = [0, 0, 0, 0, 0, 0, 0, 0, 0] \<and>
   size_f (updateConfig (example_cfg\<lparr>resolution := 1\<rparr>) dye_example) = 1 \<and>
   resolution (example_cfg\<lparr>viscosity := 1\<rparr>) = resolution (config dye_example) \<and>
   get Density (updateConfig (example_cfg\<lparr>viscosity := 1\<rparr>) dye_example) =
     [0, 0, 0, 0,  0, - 3, 1 / 2, 0,  0, 7, 1, 0,  0, 0, 0, 0] \<and>
   config (updateConfig (example_cfg\<lparr>viscosity := 1\<rparr>) dye_example) = example_cfg\<lparr>viscosity := 1\<rparr>"
proof -
  have c: "config dye_example = example_cfg"
    by (simp add: dye_example_def constructor_def Let_def)
  have d: "density dye_example = [0, 0, 0, 0,  0, - 3, 1 / 2, 0,  0, 7, 1, 0,  0, 0, 0, 0]"
    by (simp add: dye_example_def)
  have r: "resolution example_cfg = 2" by (simp add: example_cfg_def)
  have n9: "replicate 9 (0::real) = [0, 0, 0, 0, 0, 0, 0, 0, 0]"
    by (simp add: numeral_eq_Suc)
  show ?thesis
    using updateConfig_resize_or_keep [of "example_cfg\<lparr>resolution := 1\<rparr>" dye_example]
      updateConfig_resize_or_keep [of "example_cfg\<lparr>viscosity := 1\<rparr>" dye_example]
    by (simp add: c d r n9)
qed

text \<open>
  Claim C6. \<open>diffuse\<close> runs the relaxation sweep exactly \<open>K = pressureIterations\<close> times
  with the coefficients \<open>a = dt * rate * N * N\<close> and \<open>c = 1 + 4 * a\<close>. One sweep, started
  in a state \<open>t\<close> whose target \<open>x\<close> is another buffer than the source \<open>x0\<close>, leaves every
  other buffer as it is and gives every interior cell the value
  \<open>(x0[i,j] + a * (west + east + south + north)) / c\<close>, where the west and south
  neighbours are read after their own update in this sweep (their value in the result
  \<open>t'\<close>; a ghost neighbour still holds its value from before the sweep) and the east and
  north neighbours before theirs; the boundary rule of tag \<open>b\<close> holds at the end of every
  sweep, since each sweep ends with \<open>setBounds\<close>.
\<close>

theorem diffuse_relaxation_sweeps:
  assumes "grid_ok s" "1 \<le> size_f s" "x \<noteq> x0"
  shows "let a = dt * rate * real_of_int (size_f s) * real_of_int (size_f s);
             c = 1 + 4 * a;
             sweep = linearSolve_sweep b x x0 a c
         in diffuse b x x0 rate dt s =
              ((\<lambda>m. Option.bind m sweep) ^^ nat (pressureIterations (config s))) (Some s) \<and>
            (\<forall>t. grid_ok t \<and> size_f t = size_f s \<longrightarrow>
               (\<exists>t'. sweep t = Some t' \<and> grid_ok t' \<and> size_f t' = size_f t \<and>
                  config t' = config t \<and> (\<forall>y. y \<noteq> x \<longrightarrow> get y t' = get y t) \<and>
                  (\<forall>i j. 1 \<le> i \<and> i \<le> size_f t \<and> 1 \<le> j \<and> j \<le> size_f t \<longrightarrow>
                     cell x i j t' =
                       (cell x0 i j t +
                        a * ((if i = 1 then cell x 0 j t else cell x (i - 1) j t') +
                             cell x (i + 1) j t +
                             (if j = 1 then cell x i 0 t else cell x i (j - 1) t') +
                             cell x i (j + 1) t)) / c) \<and>
                  mirrored b x t'))"
proof -
  define a where "a = dt * rate * real_of_int (size_f s) * real_of_int (size_f s)"
  have 1: "diffuse b x x0 rate dt s =
      ((\<lambda>m. Option.bind m (linearSolve_sweep b x x0 a (1 + 4 * a))) ^^
         nat (pressureIterations (config s))) (Some s)"
    by (simp add: diffuse_def Let_def linearSolve_sweeps a_def)
  have 2: "\<exists>t'. linearSolve_sweep b x x0 a (1 + 4 * a) t = Some t' \<and> grid_ok t' \<and>
      size_f t' = size_f t \<and> config t' = config t \<and> (\<forall>y. y \<noteq> x \<longrightarrow> get y t' = get y t) \<and>
      (\<forall>i j. 1 \<le> i \<and> i \<le> size_f t \<and> 1 \<le> j \<and> j \<le> size_f t \<longrightarrow>
         cell x i j t' =
           (cell x0 i j t +
            a * ((if i = 1 then cell x 0 j t else cell x (i - 1) j t') +
                 cell x (i + 1) j t +
                 (if j = 1 then cell x i 0 t else cell x i (j - 1) t') +
                 cell x i (j + 1) t)) / (1 + 4 * a)) \<and>
      mirrored b x t'" if "grid_ok t" "size_f t = size_f s" for t
  proof -
    have "1 \<le> size_f t" using that assms(2) by simp
    from linearSolve_sweep_post [OF assms(3) that(1) this, of b a "1 + 4 * a"]
    show ?thesis by (auto simp add: frame_def interior_def)
  qed
  show ?thesis unfolding Let_def a_def [symmetric] using 1 2 by blast
qed

theorem diffuse_relaxation_sweeps_witness:
  "grid_ok dye_example \<and> 1 \<le> size_f dye_example \<and> DensityPrev \<noteq> Density \<and>
   diffuse 0 DensityPrev Density 1 1 dye_example =
     linearSolve_sweep 0 DensityPrev Density 4 17 dye_example \<and>
   (\<exists>t'. linearSolve_sweep 0 DensityPrev Density 4 17 dye_example = Some t' \<and>
      cell DensityPrev 1 1 t' = - 3 / 17 \<and>
      cell DensityPrev 2 1 t' = (1 / 2 + 4 * (- 3 / 17)) / 17 \<and>
      cell DensityPrev 0 1 t' = - 3 / 17)"
proof -
  have g: "grid_ok dye_example"
    by (simp add: dye_example_def example_cfg_def constructor_def grid_ok_def newFloat32Array_def Let_def)
  have n: "size_f dye_example = 2"
    by (simp add: dye_example_def example_cfg_def constructor_def Let_def)
  have k: "pressureIterations (config dye_example) = 1"
    by (simp add: dye_example_def example_cfg_def constructor_def Let_def)
  have n1: "1 \<le> size_f dye_example" using n by simp
  have ne: "DensityPrev \<noteq> Density" by simp
  have v: "cell Density 1 1 dye_example = - 3" "cell Density 2 1 dye_example = 1 / 2"
    by (simp_all add: cell_def IX_def dye_example_def example_cfg_def constructor_def Let_def)
  have z: "cell DensityPrev i j dye_example = 0" if "inb dye_example i" "inb dye_example j" for i j
  proof -
    have "cell DensityPrev i j dye_example = cell DensityPrev i j (constructor example_cfg)"
      by (simp add: cell_def IX_def dye_example_def)
    moreover have "inb (constructor example_cfg) = inb dye_example"
      by (simp add: inb_def fun_eq_iff dye_example_def)
    ultimately show ?thesis using that by (simp add: cell_constructor)
  qed
  note T = diffuse_relaxation_sweeps [OF g n1 ne, of 1 1 0, unfolded Let_def n k]
  from T have d: "diffuse 0 DensityPrev Density 1 1 dye_example =
     linearSolve_sweep 0 DensityPrev Density 4 17 dye_example" by simp
  from T g n obtain t' where
    t': "linearSolve_sweep 0 DensityPrev Density 4 17 dye_example = Some t'"
    and c: "\<And>i j. 1 \<le> i \<Longrightarrow> i \<le> 2 \<Longrightarrow> 1 \<le> j \<Longrightarrow> j \<le> 2 \<Longrightarrow>
       cell DensityPrev i j t' =
         (cell Density i j dye_example +
          4 * ((if i = 1 then cell DensityPrev 0 j dye_example else cell DensityPrev (i - 1) j t') +
               cell DensityPrev (i + 1) j dye_example +
               (if j = 1 then cell DensityPrev i 0 dye_example else cell DensityPrev i (j - 1) t') +
               cell DensityPrev i (j + 1) dye_example)) / 17"
    and m: "mirrored 0 DensityPrev t'" and nt: "size_f t' = 2"
    by (auto simp add: n)
  have c11: "cell DensityPrev 1 1 t' = - 3 / 17"
    using c [of 1 1] by (simp add: v z inb_def n)
  have c21: "cell DensityPrev 2 1 t' = (1 / 2 + 4 * (- 3 / 17)) / 17"
    using c [of 2 1] c11 by (simp add: v z inb_def n)
  have c01: "cell DensityPrev 0 1 t' = - 3 / 17"
    using m c11 by (simp add: mirrored_def Let_def nt)
  show ?thesis using g n1 d t' c11 c21 c01 by auto
qed

text \<open>
  Claim C7. On a state whose buffers have length \<open>(N+2)\<^sup>2\<close>, \<open>addImpulse\<close> returns a
  state in which every interior cell \<open>(px, py)\<close> holds its old dye plus the brush's
  contribution: with \<open>r = max \<lfloor>radius * N\<rfloor> 1\<close> and the offsets \<open>i = px - \<lfloor>x * N\<rfloor>\<close>,
  \<open>j = py - \<lfloor>y * N\<rfloor>\<close> from the mapped centre, a cell of the square \<open>[-r, r]\<^sup>2\<close> whose
  distance \<open>dist = sqrt (i\<^sup>2 + j\<^sup>2)\<close> is at most \<open>r\<close> gains
  \<open>(1 - dist / r) * (strength * (1 + audioFactor) * 0.01)\<close> (nothing at \<open>dist = r\<close>, where
  the weight is zero and the source skips the cell), any other interior cell gains nothing;
  the ghost ring of the density and all other buffers are unchanged. This holds for any
  \<open>(x, y)\<close>, in particular for the in-bounds ones the claim speaks of.
\<close>

theorem addImpulse_radial_falloff:
  assumes "grid_ok s"
  shows "\<exists>s'. addImpulse x y radius strength audioFactor s = Some s' \<and>
     (\<forall>px py. 1 \<le> px \<and> px \<le> size_f s \<and> 1 \<le> py \<and> py \<le> size_f s \<longrightarrow>
        cell Density px py s' = cell Density px py s +
          (let r = max \<lfloor>radius * real_of_int (size_f s)\<rfloor> 1;
               i = px - \<lfloor>x * real_of_int (size_f s)\<rfloor>;
               j = py - \<lfloor>y * real_of_int (size_f s)\<rfloor>;
               dist = sqrt (real_of_int (i * i + j * j))
           in if - r \<le> i \<and> i \<le> r \<and> - r \<le> j \<and> j \<le> r \<and> dist \<le> real_of_int r
              then (1 - dist / real_of_int r) * (strength * (1 + audioFactor) * 0.01)
              else 0)) \<and>
     (\<forall>px py. 0 \<le> px \<and> px \<le> size_f s + 1 \<and> 0 \<le> py \<and> py \<le> size_f s + 1 \<and>
        \<not> (1 \<le> px \<and> px \<le> size_f s \<and> 1 \<le> py \<and> py \<le> size_f s) \<longrightarrow>
        cell Density px py s' = cell Density px py s) \<and>
     (\<forall>b. b \<noteq> Density \<longrightarrow> get b s' = get b s) \<and>
     config s' = config s \<and> size_f s' = size_f s \<and> grid_ok s'"
proof -
  define r where "r = max \<lfloor>radius * real_of_int (size_f s)\<rfloor> 1"
  define cx where "cx = \<lfloor>x * real_of_int (size_f s)\<rfloor>"
  define cy where "cy = \<lfloor>y * real_of_int (size_f s)\<rfloor>"
  define impulse where "impulse = strength * (1 + audioFactor)"
  have r1: "1 \<le> r" by (simp add: r_def)
  from addImpulse_post [OF assms, of x y radius strength audioFactor] obtain s' where
    s': "addImpulse x y radius strength audioFactor s = Some s'"
    and d: "impulse_done s r cx cy impulse r r s'"
    by (auto simp add: r_def cx_def cy_def impulse_def)
  from d have f: "frame {Density} s s'"
    and c: "\<And>px py. inb s px \<Longrightarrow> inb s py \<Longrightarrow> cell Density px py s' = cell Density px py s +
          (if interior s px py then impulse_added r cx cy impulse px py else 0)"
    by (simp_all add: impulse_done_def impulse_partial_end)
  have 1: "cell Density px py s' = cell Density px py s +
          (let i = px - cx; j = py - cy; dist = sqrt (real_of_int (i * i + j * j)) in
           if - r \<le> i \<and> i \<le> r \<and> - r \<le> j \<and> j \<le> r \<and> dist \<le> real_of_int r
           then (1 - dist / real_of_int r) * (impulse * 0.01) else 0)"
    if "1 \<le> px \<and> px \<le> size_f s \<and> 1 \<le> py \<and> py \<le> size_f s" for px py
    using c [of px py] that impulse_added_dist [OF r1, of cx cy impulse px py]
    by (simp add: inb_def interior_def)
  have 2: "cell Density px py s' = cell Density px py s"
    if "0 \<le> px \<and> px \<le> size_f s + 1 \<and> 0 \<le> py \<and> py \<le> size_f s + 1 \<and>
        \<not> (1 \<le> px \<and> px \<le> size_f s \<and> 1 \<le> py \<and> py \<le> size_f s)" for px py
    using c [of px py] that by (simp add: inb_def interior_def)
  have 3: "\<forall>b. b \<noteq> Density \<longrightarrow> get b s' = get b s" "config s' = config s"
    "size_f s' = size_f s" "grid_ok s'"
    using f by (simp_all add: frame_def)
  show ?thesis
    unfolding r_def [symmetric] cx_def [symmetric] cy_def [symmetric] impulse_def [symmetric]
      Let_def
    using s' 1 2 3 unfolding Let_def by blast
qed

theorem addImpulse_radial_falloff_witness:
  "grid_ok (constructor example_cfg) \<and>
   (\<exists>s'. addImpulse (1 / 2) (1 / 2) 1 100 0 (constructor example_cfg) = Some s' \<and>
      cell Density 1 1 s' = 1 \<and> cell Density 2 1 s' = 1 / 2 \<and> cell Density 0 0 s' = 0 \<and>
      get VelocityX s' = get VelocityX (constructor example_cfg))"
proof -
  let ?s = "constructor example_cfg"
  have n: "size_f ?s = 2" by (simp add: example_cfg_def)
  have z: "cell Density 1 1 ?s = 0" "cell Density 2 1 ?s = 0" "cell Density 0 0 ?s = 0"
    by (simp_all add: cell_constructor inb_def example_cfg_def)
  from addImpulse_radial_falloff [of ?s "1 / 2" "1 / 2" 1 100 0, OF grid_ok_constructor]
  obtain s' where s': "addImpulse (1 / 2) (1 / 2) 1 100 0 ?s = Some s'"
    and i: "\<And>px py. 1 \<le> px \<and> px \<le> 2 \<and> 1 \<le> py \<and> py \<le> 2 \<Longrightarrow>
        cell Density px py s' = cell Density px py ?s +
          (let r = 2; i = px - 1; j = py - 1; dist = sqrt (real_of_int (i * i + j * j))
           in if - r \<le> i \<and> i \<le> r \<and> - r \<le> j \<and> j \<le> r \<and> dist \<le> real_of_int r
              then (1 - dist / real_of_int r) * (100 * (1 + 0) * 0.01) else 0)"
    and o: "\<And>px py. 0 \<le> px \<and> px \<le> 3 \<and> 0 \<le> py \<and> py \<le> 3 \<and>
        \<not> (1 \<le> px \<and> px \<le> 2 \<and> 1 \<le> py \<and> py \<le> 2) \<Longrightarrow>
        cell Density px py s' = cell Density px py ?s"
    and b: "\<And>b. b \<noteq> Density \<Longrightarrow> get b s' = get b ?s"
    unfolding n by auto
  have "cell Density 1 1 s' = 1" using i [of 1 1] by (simp add: z)
  moreover have "cell Density 2 1 s' = 1 / 2" using i [of 2 1] by (simp add: z)
  moreover have "cell Density 0 0 s' = 0" using o [of 0 0] by (simp add: z)
  moreover have "get VelocityX s' = get VelocityX ?s" using b [of VelocityX] by simp
  ultimately show ?thesis using s' grid_ok_constructor by blast
qed








end
